theory Spec2Isabelle
  imports Main "HOL-Library.AList"
begin

section \<open>The aggregation engine of \<open>lib/lib.ts\<close>\<close>

text \<open>
  A shallow embedding of the class \<open>ProtocolFileWriter\<close> of \<open>src/lib/lib.ts\<close>: its three
  private accumulators, the protocol table, the dispatch \<open>#work\<close>, the two registry
  builders and the entry point \<open>main\<close>.

  Strings are byte strings (a character outside ASCII is its UTF-8 bytes); the protocol
  names, network names and the fixed text of the generated files are ASCII.
\<close>

subsection \<open>Data model\<close>

text \<open>
  \<open>SupportedNetwork\<close> and \<open>SupportedProtocol\<close> are declared in \<open>./daisconfig\<close>. The mapped
  types of \<open>lib.ts\<close> fix their members: every per-network object is the literal
  \<open>{ MAINNET: [], KOVAN: [], ROPSTEN: [] }\<close>, and the table \<open>protocols\<close> has one entry
  per supported protocol plus \<open>ERROR\<close>.
\<close>

datatype SupportedNetwork = MAINNET | KOVAN | ROPSTEN

datatype SupportedProtocol = BANCOR | DYDX | KYBER | ONEINCH | UNISWAP

text \<open>The keys of \<open>protocols\<close>, \<open>#abis\<close> and \<open>#addresses\<close>: \<open>SupportedProtocol | 'ERROR'\<close>.\<close>

datatype key = Protocol SupportedProtocol | ERROR

text \<open>The argument \<open>net: SupportedNetwork | 'all'\<close>.\<close>

datatype net_arg = Net SupportedNetwork | All

fun protocol_name :: "SupportedProtocol \<Rightarrow> string" where
  "protocol_name BANCOR = ''BANCOR''"
| "protocol_name DYDX = ''DYDX''"
| "protocol_name KYBER = ''KYBER''"
| "protocol_name ONEINCH = ''ONEINCH''"
| "protocol_name UNISWAP = ''UNISWAP''"

fun key_name :: "key \<Rightarrow> string" where
  "key_name (Protocol p) = protocol_name p"
| "key_name ERROR = ''ERROR''"

fun net_name :: "SupportedNetwork \<Rightarrow> string" where
  "net_name MAINNET = ''MAINNET''"
| "net_name KOVAN = ''KOVAN''"
| "net_name ROPSTEN = ''ROPSTEN''"

text \<open>\<open>IABIReturn\<close> and \<open>IWriterReturn\<close> (\<open>./protocols/__imports__\<close>), by the fields that
  \<open>lib.ts\<close> reads.\<close>

record IABIReturn =
  ABI :: string

record IAddressReturn =
  ContractName :: string
  Address :: string
  NET :: SupportedNetwork

record IWriterReturn =
  ABIs :: "IABIReturn list"
  Addresses :: "IAddressReturn list"
  Pack :: string

text \<open>\<open>IContractImport\<close>: \<open>lib.ts\<close> reads the field \<open>protocol\<close> only; the rest of the import
  is the record's extension.\<close>

record IContractImport =
  protocol :: string

text \<open>An element of \<open>#addresses[protocol][net]\<close>.\<close>

record address_entry =
  entry_ContractName :: string
  entry_Address :: string

text \<open>
  A JavaScript object with string keys is an association list in insertion order, which
  is the order of \<open>Object.entries\<close>. The per-network object always has the three keys
  \<open>MAINNET\<close>, \<open>KOVAN\<close>, \<open>ROPSTEN\<close>, inserted in that order, so it is a total function
  together with that order of its entries.
\<close>

type_synonym networks = "SupportedNetwork \<Rightarrow> address_entry list"

definition networks_entries :: "networks \<Rightarrow> (SupportedNetwork \<times> address_entry list) list" where
  "networks_entries networks = map (\<lambda>net. (net, networks net)) [MAINNET, KOVAN, ROPSTEN]"

record ProtocolFileWriter =
  madeDirs :: "(SupportedProtocol \<times> bool) list"
  addresses :: "(key \<times> networks) list"
  abis :: "(key \<times> IABIReturn list) list"

subsection \<open>The registry builders\<close>

abbreviation NL :: string where
  "NL \<equiv> [CHR 0x0A]"

text \<open>\<open>String.prototype.trim\<close> on ASCII text.\<close>

definition is_space :: "char \<Rightarrow> bool" where
  "is_space c = (c \<in> set [CHR 0x09, CHR 0x0A, CHR 0x0B, CHR 0x0C, CHR 0x0D, CHR 0x20])"

definition trim :: "string \<Rightarrow> string" where
  "trim s = rev (dropWhile is_space (rev (dropWhile is_space s)))"

text \<open>The inner loop of \<open>#buildABIFile\<close>: \<open>for (const abi of abis) ABIfile += '\n  ' + abi.ABI + ','\<close>.\<close>

fun abi_loop :: "string \<Rightarrow> IABIReturn list \<Rightarrow> string" where
  "abi_loop ABIfile [] = ABIfile"
| "abi_loop ABIfile (abi # rest) = abi_loop (ABIfile @ NL @ ''  '' @ ABI abi @ '','') rest"

text \<open>The outer loop of \<open>#buildABIFile\<close> over \<open>Object.entries(this.#abis)\<close>. The loop
  variables \<open>protocol\<close> and \<open>abis\<close> of the source are \<open>proto\<close> and \<open>frags\<close> here.\<close>

fun abis_loop :: "string \<Rightarrow> (key \<times> IABIReturn list) list \<Rightarrow> string" where
  "abis_loop ABIfile [] = ABIfile"
| "abis_loop ABIfile ((proto, frags) # rest) =
     (if length frags = 0 \<or> proto = ERROR then abis_loop ABIfile rest
      else abis_loop
        (abi_loop (ABIfile @ NL @ ''export const '' @ key_name proto @ ''_ABI = {'') frags
           @ NL @ ''}'')
        rest)"

text \<open>The text that \<open>#buildABIFile\<close> hands to \<open>makeFile\<close>: \<open>ABIfile.trim()\<close>.\<close>

definition ABIfile_text :: "ProtocolFileWriter \<Rightarrow> string" where
  "ABIfile_text this = trim (abis_loop '''' (abis this))"

text \<open>The innermost loop of \<open>#buildAddressesFile\<close>, over the records of one network.\<close>

fun address_loop :: "string \<Rightarrow> address_entry list \<Rightarrow> string" where
  "address_loop AddressesFile [] = AddressesFile"
| "address_loop AddressesFile (address # rest) =
     address_loop
       (AddressesFile @ NL @ ''      '' @ entry_ContractName address @ '': ''
          @ entry_Address address @ '','')
       rest"

text \<open>The loop over \<open>Object.entries(networks)\<close>.\<close>

fun networks_loop :: "string \<Rightarrow> (SupportedNetwork \<times> address_entry list) list \<Rightarrow> string" where
  "networks_loop AddressesFile [] = AddressesFile"
| "networks_loop AddressesFile ((net, addrs) # rest) =
     (if length addrs = 0 then networks_loop AddressesFile rest
      else networks_loop
        (address_loop (AddressesFile @ NL @ ''    '' @ net_name net @ '': {'') addrs
           @ NL @ ''    },'')
        rest)"

text \<open>
  The loop over \<open>Object.entries(this.#addresses)\<close>. An object holds each key once, so
  \<open>this.#addresses[protocol]\<close> is the \<open>networks\<close> of the entry at hand.
\<close>

fun addresses_loop :: "string \<Rightarrow> (key \<times> networks) list \<Rightarrow> string" where
  "addresses_loop AddressesFile [] = AddressesFile"
| "addresses_loop AddressesFile ((proto, networks) # rest) =
     (if proto = ERROR then addresses_loop AddressesFile rest
      else if length (networks MAINNET) = 0 \<and> length (networks KOVAN) = 0
                \<and> length (networks ROPSTEN) = 0
      then addresses_loop AddressesFile rest
      else addresses_loop
        (networks_loop (AddressesFile @ NL @ ''  '' @ key_name proto @ '': {'')
             (networks_entries networks)
           @ NL @ ''  },'' @ NL)
        rest)"

text \<open>The text that \<open>#buildAddressesFile\<close> hands to \<open>makeFile\<close>.\<close>

definition AddressesFile_text :: "ProtocolFileWriter \<Rightarrow> string" where
  "AddressesFile_text this =
     trim (addresses_loop ''export const Addresses = {'' (addresses this) @ NL @ ''}'')"

subsection \<open>Collaborators\<close>

text \<open>
  A rejection value: the \<open>TypeError\<close> that JavaScript throws on \<open>undefined.push(...)\<close>, or
  whatever a collaborator rejects with, told apart by a label.
\<close>

datatype error = TypeError | Thrown string

text \<open>The calls the engine makes to \<open>makeDir\<close>, \<open>makeFile\<close> and \<open>log.error\<close>, in call order.\<close>

datatype effect = MakeDir string | MakeFile string string | LogError string

text \<open>
  What \<open>lib.ts\<close> imports and does not define. \<open>makeDir\<close>, \<open>makeFile\<close> and the two writers
  return promises: the value here is how the promise settles (\<open>Inl\<close> a rejection).
  \<open>SupportedProtocolsArray\<close> is the constant of \<open>./daisconfig\<close>. \<open>toUpperCase\<close> is
  \<open>String.prototype.toUpperCase\<close> of the host: it follows the Unicode case mapping (the
  dotless \<open>i\<close> and the long \<open>s\<close>, for instance, become \<open>I\<close> and \<open>S\<close>) and returns a string
  with no lower-case ASCII letter, so it is taken from the environment rather than
  defined here. \<open>settle_order\<close> is the order in which the promises of one \<open>Promise.all\<close>
  over file-system calls settle, as indices into the group.
\<close>

record 'a env =
  SupportedProtocolsArray :: "SupportedProtocol list"
  toUpperCase :: "string \<Rightarrow> string"
  pathResolve :: "string \<Rightarrow> string"
  makeDir :: "string \<Rightarrow> error + unit"
  makeFile :: "string \<Rightarrow> string \<Rightarrow> error + unit"
  BancorWriter :: "string \<Rightarrow> string \<Rightarrow> net_arg \<Rightarrow> 'a IContractImport_scheme \<Rightarrow> error + IWriterReturn"
  DyDxWriter :: "string \<Rightarrow> string \<Rightarrow> net_arg \<Rightarrow> 'a IContractImport_scheme \<Rightarrow> error + IWriterReturn"
  settle_order :: "effect list \<Rightarrow> nat list"

text \<open>The state of a promise.\<close>

datatype 'b promise = Pending | Resolved 'b | Rejects error

text \<open>
  \<open>Promise.all\<close> over promises whose settlements are known: it rejects with the rejection
  that comes first in the settle order (an index the order leaves out settles after the
  listed ones, in input order), and resolves with the values in input order when none
  rejects.
\<close>

definition Promise_all :: "nat list \<Rightarrow> (error + 'b) list \<Rightarrow> error + 'b list" where
  "Promise_all order ps =
     (case List.find isl (map (\<lambda>i. ps ! i) (filter (\<lambda>i. i < length ps) order) @ ps) of
        Some (Inl e) \<Rightarrow> Inl e
      | _ \<Rightarrow> Inr (map projr ps))"

text \<open>\<open>[...new Set(val)]\<close>: a set keeps each value at the place of its first insertion.\<close>

definition Set_add :: "'b list \<Rightarrow> 'b \<Rightarrow> 'b list" where
  "Set_add xs x = (if x \<in> set xs then xs else xs @ [x])"

definition unique :: "'b list \<Rightarrow> 'b list" where
  "unique val = foldl Set_add [] val"

subsection \<open>The singleton and its accumulators\<close>

text \<open>The three field initialisers of the class, run once by \<open>new ProtocolFileWriter()\<close>.\<close>

definition new_ProtocolFileWriter :: "'a env \<Rightarrow> ProtocolFileWriter" where
  "new_ProtocolFileWriter env =
     \<lparr> madeDirs = fold (\<lambda>p obj. AList.update p False obj) (SupportedProtocolsArray env) [],
       addresses =
         AList.update ERROR (\<lambda>net. [])
           (fold (\<lambda>p obj. AList.update (Protocol p) (\<lambda>net. []) obj)
              (SupportedProtocolsArray env) []),
       abis =
         AList.update ERROR []
           (fold (\<lambda>p obj. AList.update (Protocol p) [] obj) (SupportedProtocolsArray env) []) \<rparr>"

text \<open>\<open>this.#madeDirs.BANCOR\<close> as a condition: a missing key reads \<open>undefined\<close>, which is falsy.\<close>

definition made :: "ProtocolFileWriter \<Rightarrow> SupportedProtocol \<Rightarrow> bool" where
  "made this p = (map_of (madeDirs this) p = Some True)"

text \<open>\<open>this.#abis[protocol].push(...val.ABIs)\<close>.\<close>

definition push_abis :: "key \<Rightarrow> IABIReturn list \<Rightarrow> ProtocolFileWriter \<Rightarrow> error + ProtocolFileWriter" where
  "push_abis k xs this =
     (case map_of (abis this) k of
        None \<Rightarrow> Inl TypeError
      | Some old \<Rightarrow> Inr (this\<lparr>abis := AList.update k (old @ xs) (abis this)\<rparr>))"

text \<open>The \<open>forEach\<close> over \<open>val.Addresses\<close>; what it pushed before a throw stays pushed.\<close>

fun push_addresses ::
  "key \<Rightarrow> IAddressReturn list \<Rightarrow> ProtocolFileWriter \<Rightarrow> ProtocolFileWriter \<times> error option" where
  "push_addresses k [] this = (this, None)"
| "push_addresses k (address # rest) this =
     (case map_of (addresses this) k of
        None \<Rightarrow> (this, Some TypeError)
      | Some nets \<Rightarrow>
          push_addresses k rest
            (this\<lparr>addresses :=
               AList.update k
                 (nets(NET address :=
                    nets (NET address)
                      @ [\<lparr>entry_ContractName = ContractName address,
                           entry_Address = Address address\<rparr>]))
                 (addresses this)\<rparr>))"

subsection \<open>The generators of the table \<open>protocols\<close>\<close>

text \<open>
  A generator invocation is a promise. Between two awaits it runs without interruption,
  so it is a task that moves through phases: \<open>Provisioning\<close> while its \<open>Promise.all\<close> of
  \<open>makeDir\<close> calls is pending, \<open>Generating\<close> while the promise it returned has not been
  folded by the callback of \<open>#work\<close>, then \<open>Done\<close> with the pack or \<open>Failed\<close> with the
  rejection.
\<close>

datatype phase = Provisioning | Generating | Done string | Failed error

datatype 'a task = Task key "'a IContractImport_scheme" phase

fun task_key :: "'a task \<Rightarrow> key" where
  "task_key (Task k ci ph) = k"

fun task_import :: "'a task \<Rightarrow> 'a IContractImport_scheme" where
  "task_import (Task k ci ph) = ci"

fun task_phase :: "'a task \<Rightarrow> phase" where
  "task_phase (Task k ci ph) = ph"

text \<open>
  \<open>this.protocols[protocol]\<close> for a string: the own keys of the table. The inherited
  properties of an object all have a lower-case ASCII letter in their names, and the
  host's \<open>toUpperCase\<close> returns a string that has none.
\<close>

definition protocols_key :: "string \<Rightarrow> key option" where
  "protocols_key s =
     map_of
       (map (\<lambda>k. (key_name k, k))
          [Protocol BANCOR, Protocol DYDX, Protocol KYBER, Protocol ONEINCH, Protocol UNISWAP,
           ERROR])
       s"

text \<open>The first two lines of the callback of \<open>contractImports.map\<close> in \<open>#work\<close>.\<close>

definition dispatch_key :: "'a env \<Rightarrow> 'a IContractImport_scheme \<Rightarrow> key" where
  "dispatch_key env ci =
     (case protocols_key (toUpperCase env (protocol ci)) of None \<Rightarrow> ERROR | Some k \<Rightarrow> k)"

text \<open>The arguments of the \<open>makeDir\<close> calls of \<open>#bancor\<close> and \<open>#dydx\<close>.\<close>

fun protocol_dirs :: "'a env \<Rightarrow> string \<Rightarrow> key \<Rightarrow> string list" where
  "protocol_dirs env dir (Protocol BANCOR) =
     [pathResolve env (dir @ ''/contracts/interfaces/Bancor'')]"
| "protocol_dirs env dir (Protocol DYDX) =
     [pathResolve env (dir @ ''/contracts/interfaces/DyDx''),
      pathResolve env (dir @ ''/contracts/libraries/DyDx'')]"
| "protocol_dirs env dir k = []"

text \<open>
  A generator from its call to its first await: \<open>#bancor\<close> and \<open>#dydx\<close> read their flag and
  call \<open>makeDir\<close> when it is not set; \<open>ERROR\<close> logs. The result is the calls made and the
  phase the task is left in.
\<close>

fun protocols_call ::
  "'a env \<Rightarrow> key \<Rightarrow> ProtocolFileWriter \<Rightarrow> string \<Rightarrow> 'a IContractImport_scheme \<Rightarrow> effect list \<times> phase" where
  "protocols_call env (Protocol BANCOR) this dir ci =
     (if \<not> made this BANCOR
      then (map MakeDir (protocol_dirs env dir (Protocol BANCOR)), Provisioning)
      else ([], Generating))"
| "protocols_call env (Protocol DYDX) this dir ci =
     (if \<not> made this DYDX
      then (map MakeDir (protocol_dirs env dir (Protocol DYDX)), Provisioning)
      else ([], Generating))"
| "protocols_call env (Protocol KYBER) this dir ci = ([], Generating)"
| "protocols_call env (Protocol ONEINCH) this dir ci = ([], Generating)"
| "protocols_call env (Protocol UNISWAP) this dir ci = ([], Generating)"
| "protocols_call env ERROR this dir ci = ([LogError (protocol ci)], Generating)"

text \<open>
  \<open>#bancor\<close> and \<open>#dydx\<close> when their \<open>Promise.all\<close> of \<open>makeDir\<close> calls settles: the flag is
  set when it resolves, and the rejection is thrown on when it rejects.
\<close>

fun provisioned :: "'a env \<Rightarrow> key \<Rightarrow> string \<Rightarrow> ProtocolFileWriter \<Rightarrow> ProtocolFileWriter \<times> phase" where
  "provisioned env (Protocol BANCOR) dir this =
     (case Promise_all (settle_order env (map MakeDir (protocol_dirs env dir (Protocol BANCOR))))
             (map (makeDir env) (protocol_dirs env dir (Protocol BANCOR))) of
        Inl e \<Rightarrow> (this, Failed e)
      | Inr u \<Rightarrow> (this\<lparr>madeDirs := AList.update BANCOR True (madeDirs this)\<rparr>, Generating))"
| "provisioned env (Protocol DYDX) dir this =
     (case Promise_all (settle_order env (map MakeDir (protocol_dirs env dir (Protocol DYDX))))
             (map (makeDir env) (protocol_dirs env dir (Protocol DYDX))) of
        Inl e \<Rightarrow> (this, Failed e)
      | Inr u \<Rightarrow> (this\<lparr>madeDirs := AList.update DYDX True (madeDirs this)\<rparr>, Generating))"
| "provisioned env k dir this = (this, Generating)"

text \<open>How the promise that a generator returns settles.\<close>

fun protocols_return ::
  "'a env \<Rightarrow> key \<Rightarrow> string \<Rightarrow> string \<Rightarrow> net_arg \<Rightarrow> 'a IContractImport_scheme \<Rightarrow> error + IWriterReturn" where
  "protocols_return env (Protocol BANCOR) dir solver net ci = BancorWriter env dir solver net ci"
| "protocols_return env (Protocol DYDX) dir solver net ci = DyDxWriter env dir solver net ci"
| "protocols_return env (Protocol KYBER) dir solver net ci =
     Inr \<lparr>ABIs = [], Addresses = [], Pack = ''''\<rparr>"
| "protocols_return env (Protocol ONEINCH) dir solver net ci =
     Inr \<lparr>ABIs = [], Addresses = [], Pack = ''''\<rparr>"
| "protocols_return env (Protocol UNISWAP) dir solver net ci =
     Inr \<lparr>ABIs = [], Addresses = [], Pack = ''''\<rparr>"
| "protocols_return env ERROR dir solver net ci =
     Inr \<lparr>ABIs = [], Addresses = [], Pack = ''''\<rparr>"

subsection \<open>\<open>#work\<close>\<close>

text \<open>The callback \<open>val => { ... return val.Pack }\<close> of \<open>#work\<close>.\<close>

definition accumulate :: "key \<Rightarrow> IWriterReturn \<Rightarrow> ProtocolFileWriter \<Rightarrow> ProtocolFileWriter \<times> phase" where
  "accumulate k val this =
     (case push_abis k (ABIs val) this of
        Inl e \<Rightarrow> (this, Failed e)
      | Inr this1 \<Rightarrow>
          (case push_addresses k (Addresses val) this1 of
             (this2, Some e) \<Rightarrow> (this2, Failed e)
           | (this2, None) \<Rightarrow> (this2, Done (Pack val))))"

text \<open>
  A run of \<open>#work\<close> in flight: the engine, the calls made so far, the tasks in the order
  of \<open>contractImports\<close>, and the rejection of the \<open>Promise.all\<close> of \<open>#work\<close> once a task has
  failed (the first failure; later ones change nothing).
\<close>

record 'a run =
  engine :: ProtocolFileWriter
  effects :: "effect list"
  tasks :: "'a task list"
  rejected :: "error option"

definition set_phase :: "nat \<Rightarrow> key \<Rightarrow> 'a IContractImport_scheme \<Rightarrow> phase \<Rightarrow> 'a run \<Rightarrow> 'a run" where
  "set_phase i k ci ph r =
     r\<lparr>tasks := (tasks r)[i := Task k ci ph],
       rejected :=
         (case rejected r of
            Some e \<Rightarrow> Some e
          | None \<Rightarrow> (case ph of Failed e \<Rightarrow> Some e | _ \<Rightarrow> None))\<rparr>"

text \<open>
  The pending promise of task \<open>i\<close> settles and the task runs to its next await. A task
  that is \<open>Done\<close> or \<open>Failed\<close>, or an index past the batch, changes nothing.
\<close>

definition settle :: "'a env \<Rightarrow> string \<Rightarrow> string \<Rightarrow> net_arg \<Rightarrow> 'a run \<Rightarrow> nat \<Rightarrow> 'a run" where
  "settle env dir solver net r i =
     (if i < length (tasks r) then
        (case tasks r ! i of
           Task k ci Provisioning \<Rightarrow>
             (case provisioned env k dir (engine r) of
                (this', ph) \<Rightarrow> set_phase i k ci ph (r\<lparr>engine := this'\<rparr>))
         | Task k ci Generating \<Rightarrow>
             (case protocols_return env k dir solver net ci of
                Inl e \<Rightarrow> set_phase i k ci (Failed e) r
              | Inr val \<Rightarrow>
                  (case accumulate k val (engine r) of
                     (this', ph) \<Rightarrow> set_phase i k ci ph (r\<lparr>engine := this'\<rparr>)))
         | Task k ci ph \<Rightarrow> r)
      else r)"

text \<open>\<open>contractImports.map(ci => ...)\<close>: every generator is called, in order, before any
  promise settles.\<close>

definition call_all ::
  "'a env \<Rightarrow> ProtocolFileWriter \<Rightarrow> string \<Rightarrow> 'a IContractImport_scheme list \<Rightarrow> 'a run" where
  "call_all env this dir contractImports =
     \<lparr> engine = this,
       effects =
         concat (map (\<lambda>ci. fst (protocols_call env (dispatch_key env ci) this dir ci)) contractImports),
       tasks =
         map (\<lambda>ci. Task (dispatch_key env ci) ci
                (snd (protocols_call env (dispatch_key env ci) this dir ci)))
           contractImports,
       rejected = None \<rparr>"

fun task_pack :: "'a task \<Rightarrow> string option" where
  "task_pack (Task k ci (Done pack)) = Some pack"
| "task_pack (Task k ci ph) = None"

text \<open>The state of the \<open>Promise.all\<close> of \<open>#work\<close>.\<close>

definition all_tasks :: "'a run \<Rightarrow> string list promise" where
  "all_tasks r =
     (case rejected r of
        Some e \<Rightarrow> Rejects e
      | None \<Rightarrow>
          (if list_all (\<lambda>t. task_pack t \<noteq> None) (tasks r)
           then Resolved (map (\<lambda>t. the (task_pack t)) (tasks r))
           else Pending))"

text \<open>
  The run of \<open>#work\<close> when the tasks' promises have settled in the order of the schedule
  \<open>sched\<close>, a list of task indices.
\<close>

definition work_run ::
  "'a env \<Rightarrow> nat list \<Rightarrow> ProtocolFileWriter \<Rightarrow> string \<Rightarrow> 'a IContractImport_scheme list \<Rightarrow> string
     \<Rightarrow> net_arg \<Rightarrow> 'a run" where
  "work_run env sched this solver contractImports dir net =
     foldl (settle env dir solver net) (call_all env this dir contractImports) sched"

text \<open>
  \<open>#work\<close>: the state of its promise, the engine and the calls made when the schedule has
  run.
\<close>

definition work ::
  "'a env \<Rightarrow> nat list \<Rightarrow> ProtocolFileWriter \<Rightarrow> string \<Rightarrow> 'a IContractImport_scheme list \<Rightarrow> string
     \<Rightarrow> net_arg \<Rightarrow> string list promise \<times> ProtocolFileWriter \<times> effect list" where
  "work env sched this solver contractImports dir net =
     (let r = work_run env sched this solver contractImports dir net
      in (all_tasks r, engine r, effects r))"

text \<open>The pack that the generator of an import returns, or its rejection.\<close>

definition pack_of :: "'a env \<Rightarrow> string \<Rightarrow> string \<Rightarrow> net_arg \<Rightarrow> 'a IContractImport_scheme \<Rightarrow> error + string" where
  "pack_of env dir solver net ci =
     map_sum (\<lambda>e. e) Pack (protocols_return env (dispatch_key env ci) dir solver net ci)"

subsection \<open>\<open>main\<close>\<close>

definition base_dirs :: "'a env \<Rightarrow> string \<Rightarrow> string list" where
  "base_dirs env dir =
     [pathResolve env (dir @ ''/contracts/interfaces''),
      pathResolve env (dir @ ''/contracts/libraries''),
      pathResolve env (dir @ ''/lib''),
      pathResolve env (dir @ ''/migrations'')]"

definition makeBaseDirs :: "'a env \<Rightarrow> string \<Rightarrow> effect list \<times> (error + unit list)" where
  "makeBaseDirs env dir =
     (map MakeDir (base_dirs env dir),
      Promise_all (settle_order env (map MakeDir (base_dirs env dir)))
        (map (makeDir env) (base_dirs env dir)))"

text \<open>The \<open>makeFile\<close> calls of \<open>#buildABIFile\<close> and \<open>#buildAddressesFile\<close>.\<close>

definition buildABIFile :: "'a env \<Rightarrow> ProtocolFileWriter \<Rightarrow> string \<Rightarrow> effect \<times> (error + unit)" where
  "buildABIFile env this dir =
     (MakeFile (pathResolve env (dir @ ''/lib/abis.ts'')) (ABIfile_text this),
      makeFile env (pathResolve env (dir @ ''/lib/abis.ts'')) (ABIfile_text this))"

definition buildAddressesFile :: "'a env \<Rightarrow> ProtocolFileWriter \<Rightarrow> string \<Rightarrow> effect \<times> (error + unit)" where
  "buildAddressesFile env this dir =
     (MakeFile (pathResolve env (dir @ ''/lib/addresses.ts'')) (AddressesFile_text this),
      makeFile env (pathResolve env (dir @ ''/lib/addresses.ts'')) (AddressesFile_text this))"

text \<open>
  \<open>main\<close>: the base directories, then \<open>#work\<close>, then both builders, then the set of the
  packs. A rejection at a step skips the steps after it.
\<close>

definition main ::
  "'a env \<Rightarrow> nat list \<Rightarrow> ProtocolFileWriter \<Rightarrow> string \<Rightarrow> 'a IContractImport_scheme list \<Rightarrow> string
     \<Rightarrow> net_arg \<Rightarrow> string list promise \<times> ProtocolFileWriter \<times> effect list" where
  "main env sched this dir contractImports solver net =
     (case makeBaseDirs env dir of
        (log0, Inl e) \<Rightarrow> (Rejects e, this, log0)
      | (log0, Inr u) \<Rightarrow>
          (case work env sched this solver contractImports dir net of
             (Pending, this', log1) \<Rightarrow> (Pending, this', log0 @ log1)
           | (Rejects e, this', log1) \<Rightarrow> (Rejects e, this', log0 @ log1)
           | (Resolved val, this', log1) \<Rightarrow>
               (let built = [buildABIFile env this' dir, buildAddressesFile env this' dir]
                in (case Promise_all (settle_order env (map fst built)) (map snd built) of
                      Inl e \<Rightarrow> (Rejects e, this', log0 @ log1 @ map fst built)
                    | Inr u \<Rightarrow> (Resolved (unique val), this', log0 @ log1 @ map fst built)))))"

subsection \<open>The registries as the specification describes them\<close>

text \<open>
  The two artifacts in the words of the specification: one export per protocol bucket
  other than \<open>ERROR\<close> that has a fragment, with the fragments in stored order; one nested
  object per protocol other than \<open>ERROR\<close> that has a record in some network, with one
  object per network that has records, in stored order. The punctuation is the source's.
\<close>

definition render_abi :: "IABIReturn \<Rightarrow> string" where
  "render_abi abi = NL @ ''  '' @ ABI abi @ '',''"

definition render_export :: "key \<Rightarrow> IABIReturn list \<Rightarrow> string" where
  "render_export p frags =
     NL @ ''export const '' @ key_name p @ ''_ABI = {'' @ concat (map render_abi frags) @ NL @ ''}''"

definition renderAbiRegistry :: "(key \<times> IABIReturn list) list \<Rightarrow> string" where
  "renderAbiRegistry buckets =
     trim (concat (map (\<lambda>(p, frags). render_export p frags)
                     (filter (\<lambda>(p, frags). p \<noteq> ERROR \<and> frags \<noteq> []) buckets)))"

definition render_address :: "address_entry \<Rightarrow> string" where
  "render_address a = NL @ ''      '' @ entry_ContractName a @ '': '' @ entry_Address a @ '',''"

definition render_network :: "SupportedNetwork \<Rightarrow> address_entry list \<Rightarrow> string" where
  "render_network net addrs =
     NL @ ''    '' @ net_name net @ '': {'' @ concat (map render_address addrs) @ NL @ ''    },''"

definition render_protocol :: "key \<Rightarrow> networks \<Rightarrow> string" where
  "render_protocol p nets =
     NL @ ''  '' @ key_name p @ '': {''
       @ concat (map (\<lambda>(net, addrs). render_network net addrs)
                   (filter (\<lambda>(net, addrs). addrs \<noteq> []) (networks_entries nets)))
       @ NL @ ''  },'' @ NL"

definition renderAddressRegistry :: "(key \<times> networks) list \<Rightarrow> string" where
  "renderAddressRegistry buckets =
     trim (''export const Addresses = {''
             @ concat (map (\<lambda>(p, nets). render_protocol p nets)
                         (filter (\<lambda>(p, nets). p \<noteq> ERROR
                                    \<and> list_ex (\<lambda>net. nets net \<noteq> []) [MAINNET, KOVAN, ROPSTEN])
                            buckets))
             @ NL @ ''}'')"

subsection \<open>Invariants of a run\<close>

text \<open>A task keeps the key that \<open>#work\<close> chose for its import, and a task that is \<open>Done\<close>
  holds the pack its generator returned.\<close>

definition task_ok :: "'a env \<Rightarrow> string \<Rightarrow> string \<Rightarrow> net_arg \<Rightarrow> 'a task \<Rightarrow> bool" where
  "task_ok env dir solver net t =
     (task_key t = dispatch_key env (task_import t)
      \<and> (case task_phase t of
            Done pack \<Rightarrow> pack_of env dir solver net (task_import t) = Inr pack
          | _ \<Rightarrow> True))"

text \<open>A task whose generator invocation rejected, and a call to \<open>makeFile\<close>.\<close>

fun task_failed :: "'a task \<Rightarrow> bool" where
  "task_failed (Task k ci (Failed e)) = True"
| "task_failed (Task k ci ph) = False"

fun is_MakeFile :: "effect \<Rightarrow> bool" where
  "is_MakeFile (MakeFile path text) = True"
| "is_MakeFile call = False"

text \<open>
  \<open>grows this this'\<close>: every flag set in \<open>this\<close> is set in \<open>this'\<close>, and every bucket of
  \<open>this\<close> is in \<open>this'\<close> with the same entries in front. \<open>ERROR_bucket_empty\<close>: the
  \<open>ERROR\<close> bucket is there and holds nothing.
\<close>

definition grows :: "ProtocolFileWriter \<Rightarrow> ProtocolFileWriter \<Rightarrow> bool" where
  "grows this this' =
     ((\<forall>p. made this p \<longrightarrow> made this' p)
      \<and> (\<forall>k frags. map_of (abis this) k = Some frags
            \<longrightarrow> (\<exists>more. map_of (abis this') k = Some (frags @ more)))
      \<and> (\<forall>k nets. map_of (addresses this) k = Some nets
            \<longrightarrow> (\<exists>nets'. map_of (addresses this') k = Some nets'
                   \<and> (\<forall>net. \<exists>more. nets' net = nets net @ more))))"

definition ERROR_bucket_empty :: "ProtocolFileWriter \<Rightarrow> bool" where
  "ERROR_bucket_empty this =
     (map_of (abis this) ERROR = Some []
      \<and> (case map_of (addresses this) ERROR of
            None \<Rightarrow> False
          | Some nets \<Rightarrow> nets MAINNET = [] \<and> nets KOVAN = [] \<and> nets ROPSTEN = []))"

fun is_LogError :: "effect \<Rightarrow> bool" where
  "is_LogError (LogError message) = True"
| "is_LogError call = False"

subsection \<open>An example environment\<close>

text \<open>
  An upper-casing for the examples. It is the host's \<open>toUpperCase\<close> on the strings the
  examples use: ASCII text, where the letters \<open>a\<close> to \<open>z\<close> change and every other character
  stays, and the dotless \<open>i\<close> (U+0131, the bytes C4 B1) and the long \<open>s\<close> (U+017F, the
  bytes C5 BF), which become \<open>I\<close> and \<open>S\<close>.
\<close>

definition upper_char :: "char \<Rightarrow> char" where
  "upper_char c =
     (case map_of (zip ''abcdefghijklmnopqrstuvwxyz'' ''ABCDEFGHIJKLMNOPQRSTUVWXYZ'') c of
        Some u \<Rightarrow> u
      | None \<Rightarrow> c)"

fun example_toUpperCase :: "string \<Rightarrow> string" where
  "example_toUpperCase [] = []"
| "example_toUpperCase [c] = [upper_char c]"
| "example_toUpperCase (c # d # s) =
     (if c = CHR 0xC4 \<and> d = CHR 0xB1 then CHR ''I'' # example_toUpperCase s
      else if c = CHR 0xC5 \<and> d = CHR 0xBF then CHR ''S'' # example_toUpperCase s
      else upper_char c # example_toUpperCase (d # s))"

text \<open>Collaborators that always resolve, for evaluating the engine on concrete batches.\<close>

definition example_env :: "unit env" where
  "example_env =
     \<lparr> SupportedProtocolsArray = [BANCOR, DYDX, KYBER, ONEINCH, UNISWAP],
       toUpperCase = example_toUpperCase,
       pathResolve = (\<lambda>p. p),
       makeDir = (\<lambda>p. Inr ()),
       makeFile = (\<lambda>p c. Inr ()),
       BancorWriter = (\<lambda>dir solver net ci.
          Inr \<lparr>ABIs = [\<lparr>ABI = ''IBancorNetwork''\<rparr>],
               Addresses =
                 [\<lparr>ContractName = ''BancorNetwork'', Address = ''0x1'', NET = MAINNET\<rparr>],
               Pack = ''@bancor/contracts''\<rparr>),
       DyDxWriter = (\<lambda>dir solver net ci.
          Inr \<lparr>ABIs = [\<lparr>ABI = ''ISoloMargin''\<rparr>],
               Addresses =
                 [\<lparr>ContractName = ''SoloMargin'', Address = ''0x2'', NET = KOVAN\<rparr>],
               Pack = ''@bancor/contracts''\<rparr>),
       settle_order = (\<lambda>group. []) \<rparr>"

text \<open>An engine after a Bancor import on mainnet and a DyDx import on Kovan.\<close>

definition example_engine :: ProtocolFileWriter where
  "example_engine =
     \<lparr> madeDirs = [(BANCOR, True), (DYDX, True), (KYBER, False), (ONEINCH, False), (UNISWAP, False)],
       addresses =
         [(Protocol BANCOR,
             (\<lambda>net. [])(MAINNET :=
               [\<lparr>entry_ContractName = ''BancorNetwork'', entry_Address = ''0x1''\<rparr>])),
          (Protocol DYDX,
             (\<lambda>net. [])(KOVAN :=
               [\<lparr>entry_ContractName = ''SoloMargin'', entry_Address = ''0x2''\<rparr>])),
          (Protocol KYBER, (\<lambda>net. [])),
          (Protocol ONEINCH, (\<lambda>net. [])),
          (Protocol UNISWAP, (\<lambda>net. [])),
          (ERROR, (\<lambda>net. []))],
       abis =
         [(Protocol BANCOR, [\<lparr>ABI = ''IBancorNetwork''\<rparr>]),
          (Protocol DYDX, [\<lparr>ABI = ''ISoloMargin''\<rparr>]),
          (Protocol KYBER, []),
          (Protocol ONEINCH, []),
          (Protocol UNISWAP, []),
          (ERROR, [])] \<rparr>"

text \<open>The same collaborators, with a DyDx writer that rejects.\<close>

definition failing_env :: "unit env" where
  "failing_env = example_env\<lparr>DyDxWriter := (\<lambda>dir solver net ci. Inl (Thrown ''boom''))\<rparr>"


section \<open>Properties\<close>

subsection \<open>The registry builders\<close>

lemma abi_loop_concat: "abi_loop acc frags = acc @ concat (map render_abi frags)"
  by (induction frags arbitrary: acc) (simp_all add: render_abi_def)

lemma abis_loop_concat:
  "abis_loop acc buckets =
     acc @ concat (map (\<lambda>(p, frags). render_export p frags)
                     (filter (\<lambda>(p, frags). p \<noteq> ERROR \<and> frags \<noteq> []) buckets))"
  by (induction acc buckets rule: abis_loop.induct)
     (auto simp add: abi_loop_concat render_export_def)

lemma address_loop_concat: "address_loop acc addrs = acc @ concat (map render_address addrs)"
  by (induction addrs arbitrary: acc) (simp_all add: render_address_def)

lemma networks_loop_concat:
  "networks_loop acc entries =
     acc @ concat (map (\<lambda>(net, addrs). render_network net addrs)
                     (filter (\<lambda>(net, addrs). addrs \<noteq> []) entries))"
  by (induction acc entries rule: networks_loop.induct)
     (auto simp add: address_loop_concat render_network_def)

lemma addresses_loop_concat:
  "addresses_loop acc buckets =
     acc @ concat (map (\<lambda>(p, nets). render_protocol p nets)
                     (filter (\<lambda>(p, nets). p \<noteq> ERROR
                                \<and> list_ex (\<lambda>net. nets net \<noteq> []) [MAINNET, KOVAN, ROPSTEN])
                        buckets))"
  by (induction acc buckets rule: addresses_loop.induct)
     (auto simp add: networks_loop_concat render_protocol_def)

text \<open>
  C7. For every engine state, the text of the ABI registry is one export
  \<open><PROTOCOL>_ABI\<close> per bucket other than \<open>ERROR\<close> that holds a fragment, with the raw
  ABI strings in stored order, and the text of the address registry has one nested object
  per protocol other than \<open>ERROR\<close> that has a record in some network, with one object per
  network that has records, holding the \<open>ContractName: Address\<close> entries in stored order.
  The \<open>ERROR\<close> bucket, empty buckets and empty networks do not appear.
\<close>

theorem registries_render_buckets:
  "ABIfile_text this = renderAbiRegistry (abis this)
   \<and> AddressesFile_text this = renderAddressRegistry (addresses this)"
  by (simp add: ABIfile_text_def AddressesFile_text_def renderAbiRegistry_def
        renderAddressRegistry_def abis_loop_concat addresses_loop_concat)


theorem registries_render_buckets_witness:
  "ABIfile_text example_engine =
     ''export const BANCOR_ABI = {'' @ NL @ ''  IBancorNetwork,'' @ NL @ ''}'' @ NL
       @ ''export const DYDX_ABI = {'' @ NL @ ''  ISoloMargin,'' @ NL @ ''}''
   \<and> renderAbiRegistry (abis example_engine) = ABIfile_text example_engine
   \<and> AddressesFile_text example_engine =
     ''export const Addresses = {'' @ NL
       @ ''  BANCOR: {'' @ NL @ ''    MAINNET: {'' @ NL @ ''      BancorNetwork: 0x1,'' @ NL
       @ ''    },'' @ NL @ ''  },'' @ NL @ NL
       @ ''  DYDX: {'' @ NL @ ''    KOVAN: {'' @ NL @ ''      SoloMargin: 0x2,'' @ NL
       @ ''    },'' @ NL @ ''  },'' @ NL @ NL @ ''}''
   \<and> renderAddressRegistry (addresses example_engine) = AddressesFile_text example_engine"
proof -
  have a: "ABIfile_text example_engine =
     ''export const BANCOR_ABI = {'' @ NL @ ''  IBancorNetwork,'' @ NL @ ''}'' @ NL
       @ ''export const DYDX_ABI = {'' @ NL @ ''  ISoloMargin,'' @ NL @ ''}''"
    by (simp add: ABIfile_text_def example_engine_def trim_def is_space_def)
  have b: "AddressesFile_text example_engine =
     ''export const Addresses = {'' @ NL
       @ ''  BANCOR: {'' @ NL @ ''    MAINNET: {'' @ NL @ ''      BancorNetwork: 0x1,'' @ NL
       @ ''    },'' @ NL @ ''  },'' @ NL @ NL
       @ ''  DYDX: {'' @ NL @ ''    KOVAN: {'' @ NL @ ''      SoloMargin: 0x2,'' @ NL
       @ ''    },'' @ NL @ ''  },'' @ NL @ NL @ ''}''"
    by (simp add: AddressesFile_text_def example_engine_def trim_def is_space_def
          networks_entries_def)
  have c: "ABIfile_text example_engine = renderAbiRegistry (abis example_engine)"
    and d: "AddressesFile_text example_engine = renderAddressRegistry (addresses example_engine)"
    using registries_render_buckets [of example_engine] by blast+
  show ?thesis
    by (intro conjI) (rule a, rule c [symmetric], rule b, rule d [symmetric])
qed

subsection \<open>Empty registries\<close>

text \<open>
  C10. When no protocol other than \<open>ERROR\<close> has an address record, the text of the address
  registry is still \<open>export const Addresses = {\<close>, a line break and the closing brace,
  not the empty string; when no protocol other than \<open>ERROR\<close> has an ABI fragment, the text
  of the ABI registry is the empty string.
\<close>

theorem empty_registries:
  "((\<forall>(k, nets) \<in> set (addresses this).
       k = ERROR \<or> (nets MAINNET = [] \<and> nets KOVAN = [] \<and> nets ROPSTEN = []))
      \<longrightarrow> AddressesFile_text this = ''export const Addresses = {'' @ NL @ ''}''
          \<and> AddressesFile_text this \<noteq> '''')
   \<and> ((\<forall>(k, frags) \<in> set (abis this). k = ERROR \<or> frags = [])
      \<longrightarrow> ABIfile_text this = '''')"
proof (intro conjI impI)
  assume h: "\<forall>(k, nets) \<in> set (addresses this).
       k = ERROR \<or> (nets MAINNET = [] \<and> nets KOVAN = [] \<and> nets ROPSTEN = [])"
  have "filter (\<lambda>(p, nets). p \<noteq> ERROR
            \<and> list_ex (\<lambda>net. nets net \<noteq> []) [MAINNET, KOVAN, ROPSTEN]) (addresses this) = []"
    using h by (auto simp add: filter_empty_conv)
  then show t: "AddressesFile_text this = ''export const Addresses = {'' @ NL @ ''}''"
    by (simp add: AddressesFile_text_def addresses_loop_concat trim_def is_space_def)
  show "AddressesFile_text this \<noteq> ''''"
    by (simp add: t)
next
  assume h: "\<forall>(k, frags) \<in> set (abis this). k = ERROR \<or> frags = []"
  have "filter (\<lambda>(p, frags). p \<noteq> ERROR \<and> frags \<noteq> []) (abis this) = []"
    using h by (auto simp add: filter_empty_conv)
  then show "ABIfile_text this = ''''"
    by (simp add: ABIfile_text_def abis_loop_concat trim_def)
qed

theorem empty_registries_witness:
  "AddressesFile_text (new_ProtocolFileWriter example_env)
     = ''export const Addresses = {'' @ NL @ ''}''
   \<and> ABIfile_text (new_ProtocolFileWriter example_env) = ''''"
  using empty_registries [of "new_ProtocolFileWriter example_env"]
  by (simp add: new_ProtocolFileWriter_def example_env_def)

subsection \<open>Runs of \<open>#work\<close>\<close>

lemma work_eq: "work env sched this solver cis dir net =
   (let r = work_run env sched this solver cis dir net in (all_tasks r, engine r, effects r))"
  by (simp add: work_def work_run_def)

lemma set_phase_simps [simp]:
  "effects (set_phase i k ci ph r) = effects r"
  "engine (set_phase i k ci ph r) = engine r"
  "tasks (set_phase i k ci ph r) = (tasks r)[i := Task k ci ph]"
  by (simp_all add: set_phase_def)

lemma effects_settle [simp]: "effects (settle env dir solver net r i) = effects r"
  by (simp add: settle_def split: task.splits phase.splits sum.splits prod.splits)

lemma length_tasks_settle [simp]: "length (tasks (settle env dir solver net r i)) = length (tasks r)"
  by (simp add: settle_def split: task.splits phase.splits sum.splits prod.splits)

lemma task_key_settle [simp]:
  "task_key (tasks (settle env dir solver net r i) ! j) = task_key (tasks r ! j)"
  by (cases "i = j")
     (auto simp add: settle_def nth_list_update split: task.splits phase.splits sum.splits prod.splits)

lemma task_import_settle [simp]:
  "task_import (tasks (settle env dir solver net r i) ! j) = task_import (tasks r ! j)"
  by (cases "i = j")
     (auto simp add: settle_def nth_list_update split: task.splits phase.splits sum.splits prod.splits)

lemma effects_foldl_settle [simp]:
  "effects (foldl (settle env dir solver net) r sched) = effects r"
  by (induction sched arbitrary: r) simp_all

lemma length_tasks_foldl [simp]:
  "length (tasks (foldl (settle env dir solver net) r sched)) = length (tasks r)"
  by (induction sched arbitrary: r) simp_all

lemma task_key_foldl [simp]:
  "task_key (tasks (foldl (settle env dir solver net) r sched) ! j) = task_key (tasks r ! j)"
  by (induction sched arbitrary: r) simp_all

lemma task_import_foldl [simp]:
  "task_import (tasks (foldl (settle env dir solver net) r sched) ! j) = task_import (tasks r ! j)"
  by (induction sched arbitrary: r) simp_all


lemma accumulate_phase:
  "accumulate k val this = (this', ph) \<Longrightarrow> ph = Done (Pack val) \<or> (\<exists>e. ph = Failed e)"
  by (auto simp add: accumulate_def split: sum.splits prod.splits option.splits)

lemma provisioned_phase:
  "provisioned env k dir this = (this', ph) \<Longrightarrow> ph = Generating \<or> (\<exists>e. ph = Failed e)"
  by (cases "(env, k, dir, this)" rule: provisioned.cases) (auto split: sum.splits)

lemma task_ok_settle:
  assumes "list_all (task_ok env dir solver net) (tasks r)"
  shows "list_all (task_ok env dir solver net) (tasks (settle env dir solver net r i))"
proof (cases "i < length (tasks r)")
  case False
  then show ?thesis using assms by (simp add: settle_def)
next
  case True
  then have ok: "task_ok env dir solver net (tasks r ! i)"
    using assms by (simp add: list_all_length)
  obtain k ci ph where t: "tasks r ! i = Task k ci ph"
    by (cases "tasks r ! i")
  have k: "k = dispatch_key env ci"
    using ok t by (simp add: task_ok_def)
  have upd: "\<And>ph' r'. tasks r' = tasks r \<Longrightarrow>
      (case ph' of Done pack \<Rightarrow> pack_of env dir solver net ci = Inr pack | _ \<Rightarrow> True) \<Longrightarrow>
      list_all (task_ok env dir solver net) (tasks (set_phase i k ci ph' r'))"
    using assms k True
    by (auto simp add: list_all_length nth_list_update task_ok_def split: phase.splits)
  show ?thesis
  proof (cases ph)
    case Provisioning
    obtain this' ph' where p: "provisioned env k dir (engine r) = (this', ph')"
      by (cases "provisioned env k dir (engine r)")
    from provisioned_phase [OF p] have "case ph' of Done pack \<Rightarrow> pack_of env dir solver net ci = Inr pack | _ \<Rightarrow> True"
      by auto
    then show ?thesis
      using True t Provisioning p upd [of "r\<lparr>engine := this'\<rparr>" ph'] by (simp add: settle_def)
  next
    case Generating
    show ?thesis
    proof (cases "protocols_return env k dir solver net ci")
      case (Inl e)
      then show ?thesis
        using True t Generating upd [of r "Failed e"] by (simp add: settle_def)
    next
      case (Inr val)
      obtain this' ph' where a: "accumulate k val (engine r) = (this', ph')"
        by (cases "accumulate k val (engine r)")
      from accumulate_phase [OF a] Inr k
      have "case ph' of Done pack \<Rightarrow> pack_of env dir solver net ci = Inr pack | _ \<Rightarrow> True"
        by (auto simp add: pack_of_def)
      then show ?thesis
        using True t Generating Inr a upd [of "r\<lparr>engine := this'\<rparr>" ph'] by (simp add: settle_def)
    qed
  next
    case (Done pack)
    then show ?thesis using True t assms by (simp add: settle_def)
  next
    case (Failed e)
    then show ?thesis using True t assms by (simp add: settle_def)
  qed
qed

lemma task_ok_foldl:
  "list_all (task_ok env dir solver net) (tasks r) \<Longrightarrow>
   list_all (task_ok env dir solver net) (tasks (foldl (settle env dir solver net) r sched))"
  by (induction sched arbitrary: r) (simp_all add: task_ok_settle)

lemma protocols_call_phase:
  "snd (protocols_call env k this dir ci) = Provisioning \<or> snd (protocols_call env k this dir ci) = Generating"
  by (cases "(env, k, this, dir, ci)" rule: protocols_call.cases) auto

lemma task_ok_call_all:
  "list_all (task_ok env dir solver net) (tasks (call_all env this dir cis))"
proof -
  have "task_ok env dir solver net
          (Task (dispatch_key env ci) ci (snd (protocols_call env (dispatch_key env ci) this dir ci)))" for ci
    using protocols_call_phase [of env "dispatch_key env ci" this dir ci]
    by (auto simp add: task_ok_def)
  then show ?thesis
    by (simp add: call_all_def list_all_iff)
qed

lemma task_import_work_run:
  "map task_import (tasks (work_run env sched this solver cis dir net)) = cis"
  by (rule nth_equalityI) (simp_all add: work_run_def call_all_def)

lemma work_resolved_packs:
  assumes "fst (work env sched this solver cis dir net) = Resolved val"
  shows "map (pack_of env dir solver net) cis = map Inr val"
proof -
  let ?r = "work_run env sched this solver cis dir net"
  have ok: "list_all (task_ok env dir solver net) (tasks ?r)"
    unfolding work_run_def by (rule task_ok_foldl) (rule task_ok_call_all)
  have all: "list_all (\<lambda>t. task_pack t \<noteq> None) (tasks ?r)"
    and val: "val = map (\<lambda>t. the (task_pack t)) (tasks ?r)"
    using assms by (auto simp add: work_eq all_tasks_def Let_def split: option.splits if_splits)
  have "pack_of env dir solver net (task_import t) = Inr (the (task_pack t))"
    if "t \<in> set (tasks ?r)" for t
  proof -
    from that ok all have a: "task_ok env dir solver net t" and b: "task_pack t \<noteq> None"
      by (simp_all add: list_all_iff)
    from b obtain k ci pack where "t = Task k ci (Done pack)"
      by (cases t rule: task_pack.cases) auto
    with a show ?thesis by (simp add: task_ok_def)
  qed
  then have "map (\<lambda>t. pack_of env dir solver net (task_import t)) (tasks ?r)
               = map (\<lambda>t. Inr (the (task_pack t))) (tasks ?r)"
    by simp
  then have "map (pack_of env dir solver net) (map task_import (tasks ?r)) = map Inr val"
    by (simp add: val comp_def)
  then show ?thesis
    by (simp only: task_import_work_run)
qed

subsection \<open>The packs of a batch\<close>

text \<open>
  C1, as stated: the list that \<open>#work\<close> resolves to holds only non-empty packs. It fails:
  the Kyber generator returns the empty pack, and \<open>#work\<close> resolves to a list that holds it.
\<close>

theorem work_keeps_empty_pack:
  "fst (work example_env [0] (new_ProtocolFileWriter example_env) ''0.8.0''
          [\<lparr>protocol = ''kyber''\<rparr>] ''dir'' All) = Resolved ['''']"
  by code_simp

text \<open>
  C1, amended: when \<open>#work\<close> resolves, its list has one element per import, in the order
  of the imports: the pack that the import's generator returned, empty or not.
\<close>

theorem work_resolves_to_every_pack:
  "fst (work env sched this solver cis dir net) = Resolved val \<Longrightarrow>
   map (pack_of env dir solver net) cis = map Inr val"
  by (rule work_resolved_packs)

theorem work_resolves_to_every_pack_witness:
  "fst (work example_env [0, 1, 0] (new_ProtocolFileWriter example_env) ''0.8.0''
          [\<lparr>protocol = ''bancor''\<rparr>, \<lparr>protocol = ''kyber''\<rparr>] ''dir'' All)
     = Resolved [''@bancor/contracts'', '''']
   \<and> map (pack_of example_env ''dir'' ''0.8.0'' All)
         [\<lparr>protocol = ''bancor''\<rparr>, \<lparr>protocol = ''kyber''\<rparr>]
     = map Inr [''@bancor/contracts'', '''']"
proof -
  have r: "fst (work example_env [0, 1, 0] (new_ProtocolFileWriter example_env) ''0.8.0''
          [\<lparr>protocol = ''bancor''\<rparr>, \<lparr>protocol = ''kyber''\<rparr>] ''dir'' All)
     = Resolved [''@bancor/contracts'', '''']"
    by code_simp
  from r work_resolves_to_every_pack [OF r] show ?thesis
    by (rule conjI)
qed

subsection \<open>The set of the packs\<close>

lemma set_foldl_Set_add: "set (foldl Set_add acc xs) = set acc \<union> set xs"
  by (induction xs arbitrary: acc) (auto simp add: Set_add_def)

lemma distinct_foldl_Set_add: "distinct acc \<Longrightarrow> distinct (foldl Set_add acc xs)"
  by (induction xs arbitrary: acc) (simp_all add: Set_add_def)

lemma set_unique: "set (unique val) = set val"
  by (simp add: unique_def set_foldl_Set_add)

lemma distinct_unique: "distinct (unique val)"
  by (simp add: unique_def distinct_foldl_Set_add)

lemma count_list_distinct: "distinct xs \<Longrightarrow> x \<in> set xs \<Longrightarrow> count_list xs x = 1"
  by (induction xs) (auto simp add: count_list_0_iff)

lemma main_resolved:
  assumes "fst (main env sched this dir cis solver net) = Resolved val"
  shows "\<exists>val0. fst (work env sched this solver cis dir net) = Resolved val0 \<and> val = unique val0"
  using assms
  by (auto simp add: main_def Let_def split: prod.splits sum.splits promise.splits)

text \<open>
  C5. When \<open>main\<close> resolves, the list it resolves to has no duplicate, and the pack that
  the generator of an import returned is in it exactly once, however many imports
  returned that pack.
\<close>

theorem main_packs_distinct:
  assumes "fst (main env sched this dir cis solver net) = Resolved val"
  shows "distinct val
         \<and> (\<forall>ci \<in> set cis. \<exists>pack. pack_of env dir solver net ci = Inr pack
                                  \<and> count_list val pack = 1)"
proof -
  from main_resolved [OF assms] obtain val0
    where w: "fst (work env sched this solver cis dir net) = Resolved val0"
      and v: "val = unique val0"
    by blast
  have d: "distinct val"
    by (simp add: v distinct_unique)
  have "\<exists>pack. pack_of env dir solver net ci = Inr pack \<and> count_list val pack = 1"
    if "ci \<in> set cis" for ci
  proof -
    from that have "pack_of env dir solver net ci \<in> set (map (pack_of env dir solver net) cis)"
      by simp
    then have "pack_of env dir solver net ci \<in> set (map Inr val0)"
      by (simp only: work_resolved_packs [OF w])
    then obtain pack where p: "pack_of env dir solver net ci = Inr pack" and "pack \<in> set val0"
      by auto
    then have "pack \<in> set val"
      by (simp add: v set_unique)
    with d p show ?thesis
      by (auto simp add: count_list_distinct)
  qed
  with d show ?thesis by blast
qed

theorem main_packs_distinct_witness:
  "fst (main example_env [0, 1, 1, 0] (new_ProtocolFileWriter example_env) ''dir''
          [\<lparr>protocol = ''bancor''\<rparr>, \<lparr>protocol = ''dydx''\<rparr>] ''0.8.0'' All)
     = Resolved [''@bancor/contracts'']
   \<and> pack_of example_env ''dir'' ''0.8.0'' All \<lparr>protocol = ''bancor''\<rparr> = Inr ''@bancor/contracts''
   \<and> pack_of example_env ''dir'' ''0.8.0'' All \<lparr>protocol = ''dydx''\<rparr> = Inr ''@bancor/contracts''
   \<and> distinct [''@bancor/contracts'']
   \<and> (\<exists>pack. pack_of example_env ''dir'' ''0.8.0'' All \<lparr>protocol = ''dydx''\<rparr> = Inr pack
               \<and> count_list [''@bancor/contracts''] pack = 1)"
proof -
  have r: "fst (main example_env [0, 1, 1, 0] (new_ProtocolFileWriter example_env) ''dir''
          [\<lparr>protocol = ''bancor''\<rparr>, \<lparr>protocol = ''dydx''\<rparr>] ''0.8.0'' All)
     = Resolved [''@bancor/contracts'']"
    by code_simp
  have a: "pack_of example_env ''dir'' ''0.8.0'' All \<lparr>protocol = ''bancor''\<rparr> = Inr ''@bancor/contracts''"
    and b: "pack_of example_env ''dir'' ''0.8.0'' All \<lparr>protocol = ''dydx''\<rparr> = Inr ''@bancor/contracts''"
    by code_simp+
  from main_packs_distinct [OF r] have d: "distinct [''@bancor/contracts'']"
    by (rule conjunct1)
  from main_packs_distinct [OF r]
  have "\<forall>ci \<in> set [\<lparr>protocol = ''bancor''\<rparr>, \<lparr>protocol = ''dydx''\<rparr>].
          \<exists>pack. pack_of example_env ''dir'' ''0.8.0'' All ci = Inr pack
                 \<and> count_list [''@bancor/contracts''] pack = 1"
    by (rule conjunct2)
  then have c: "\<exists>pack. pack_of example_env ''dir'' ''0.8.0'' All \<lparr>protocol = ''dydx''\<rparr> = Inr pack
                 \<and> count_list [''@bancor/contracts''] pack = 1"
    by (rule bspec) simp
  from r a b d c show ?thesis by blast
qed

subsection \<open>Rejections\<close>

lemma task_failed_iff: "task_failed t \<longleftrightarrow> (\<exists>e. task_phase t = Failed e)"
  by (cases t rule: task_failed.cases) simp_all

lemma failed_set_phase:
  assumes "i < length (tasks r)" and "\<not> task_failed (tasks r ! i)"
    and "rejected r = None \<longleftrightarrow> \<not> list_ex task_failed (tasks r)"
  shows "rejected (set_phase i k ci ph r) = None
           \<longleftrightarrow> \<not> list_ex task_failed (tasks (set_phase i k ci ph r))"
proof (cases "\<exists>e. ph = Failed e")
  case True
  then have "task_failed ((tasks r)[i := Task k ci ph] ! i)"
    using assms(1) by auto
  then have "list_ex task_failed ((tasks r)[i := Task k ci ph])"
    using assms(1) by (auto simp add: list_ex_length)
  moreover have "rejected (set_phase i k ci ph r) \<noteq> None"
    using True by (auto simp add: set_phase_def split: option.splits)
  ultimately show ?thesis by simp
next
  case False
  then have nf: "\<not> task_failed (Task k ci ph)"
    by (simp add: task_failed_iff)
  have "list_ex task_failed ((tasks r)[i := Task k ci ph]) \<longleftrightarrow> list_ex task_failed (tasks r)"
    using assms(1,2) nf by (auto simp add: list_ex_length nth_list_update)
  moreover have "rejected (set_phase i k ci ph r) = rejected r"
    using False by (cases ph) (auto simp add: set_phase_def split: option.splits)
  ultimately show ?thesis using assms(3) by simp
qed

lemma settle_cases:
  assumes "i < length (tasks r)"
  obtains (idle) "task_phase (tasks r ! i) \<noteq> Provisioning" "task_phase (tasks r ! i) \<noteq> Generating"
      "settle env dir solver net r i = r"
  | (step) k ci this' ph where "task_failed (tasks r ! i) = False" "task_key (tasks r ! i) = k"
      "task_import (tasks r ! i) = ci"
      "settle env dir solver net r i = set_phase i k ci ph (r\<lparr>engine := this'\<rparr>)"
proof (cases "tasks r ! i")
  case (Task k ci ph0)
  show ?thesis
  proof (cases ph0)
    case Provisioning
    obtain this' ph where "provisioned env k dir (engine r) = (this', ph)"
      by (cases "provisioned env k dir (engine r)")
    then have "settle env dir solver net r i = set_phase i k ci ph (r\<lparr>engine := this'\<rparr>)"
      using assms Task Provisioning by (simp add: settle_def)
    then show ?thesis using Task Provisioning by (intro step) simp_all
  next
    case Generating
    show ?thesis
    proof (cases "protocols_return env k dir solver net ci")
      case (Inl e)
      then have "settle env dir solver net r i = set_phase i k ci (Failed e) (r\<lparr>engine := engine r\<rparr>)"
        using assms Task Generating by (simp add: settle_def)
      then show ?thesis
        using Task Generating by (intro step [where this' = "engine r" and ph = "Failed e"]) simp_all
    next
      case (Inr val)
      obtain this' ph where "accumulate k val (engine r) = (this', ph)"
        by (cases "accumulate k val (engine r)")
      then have "settle env dir solver net r i = set_phase i k ci ph (r\<lparr>engine := this'\<rparr>)"
        using assms Task Generating Inr by (simp add: settle_def)
      then show ?thesis using Task Generating by (intro step) simp_all
    qed
  next
    case (Done pack)
    then show ?thesis using assms Task by (intro idle) (simp_all add: settle_def)
  next
    case (Failed e)
    then show ?thesis using assms Task by (intro idle) (simp_all add: settle_def)
  qed
qed

lemma rejected_iff_settle:
  assumes "rejected r = None \<longleftrightarrow> \<not> list_ex task_failed (tasks r)"
  shows "rejected (settle env dir solver net r i) = None
           \<longleftrightarrow> \<not> list_ex task_failed (tasks (settle env dir solver net r i))"
proof (cases "i < length (tasks r)")
  case False
  then show ?thesis using assms by (simp add: settle_def)
next
  case True
  then show ?thesis
  proof (cases rule: settle_cases [where env = env and dir = dir and solver = solver and net = net])
    case idle
    then show ?thesis using assms by simp
  next
    case (step k ci this' ph)
    have "rejected (set_phase i k ci ph (r\<lparr>engine := this'\<rparr>)) = None
           \<longleftrightarrow> \<not> list_ex task_failed (tasks (set_phase i k ci ph (r\<lparr>engine := this'\<rparr>)))"
      by (rule failed_set_phase) (use True step assms in simp_all)
    then show ?thesis using step by simp
  qed
qed

lemma rejected_iff_foldl:
  "(rejected r = None \<longleftrightarrow> \<not> list_ex task_failed (tasks r)) \<Longrightarrow>
   (rejected (foldl (settle env dir solver net) r sched) = None
      \<longleftrightarrow> \<not> list_ex task_failed (tasks (foldl (settle env dir solver net) r sched)))"
  by (induction sched arbitrary: r) (simp_all add: rejected_iff_settle)

lemma rejected_settle_keeps:
  "rejected r = Some e \<Longrightarrow> rejected (settle env dir solver net r i) = Some e"
  by (simp add: settle_def set_phase_def split: task.splits phase.splits sum.splits prod.splits)

lemma rejected_foldl_keeps:
  "rejected r = Some e \<Longrightarrow> rejected (foldl (settle env dir solver net) r sched) = Some e"
  by (induction sched arbitrary: r) (simp_all add: rejected_settle_keeps)

lemma call_all_not_failed: "\<not> list_ex task_failed (tasks (call_all env this dir cis))"
proof -
  have "\<not> task_failed (Task (dispatch_key env ci) ci (snd (protocols_call env (dispatch_key env ci) this dir ci)))" for ci
    using protocols_call_phase [of env "dispatch_key env ci" this dir ci] by (auto simp add: task_failed_iff)
  then show ?thesis by (simp add: call_all_def list_ex_iff)
qed

lemma rejected_iff_work_run:
  "rejected (work_run env sched this solver cis dir net) = None
     \<longleftrightarrow> \<not> list_ex task_failed (tasks (work_run env sched this solver cis dir net))"
  unfolding work_run_def
  by (rule rejected_iff_foldl) (simp add: call_all_not_failed, simp add: call_all_def)

lemma work_run_append:
  "work_run env (before @ rest) this solver cis dir net
     = foldl (settle env dir solver net) (work_run env before this solver cis dir net) rest"
  by (simp add: work_run_def)

lemma length_tasks_work_run [simp]:
  "length (tasks (work_run env sched this solver cis dir net)) = length cis"
  by (simp add: work_run_def call_all_def)

lemma first_failure_rejected:
  assumes nf: "\<not> list_ex task_failed (tasks (work_run env before this solver cis dir net))"
    and i: "i < length cis"
    and f: "task_phase (tasks (work_run env (before @ [i]) this solver cis dir net) ! i) = Failed e"
  shows "rejected (work_run env (before @ i # rest) this solver cis dir net) = Some e"
proof -
  let ?r = "work_run env before this solver cis dir net"
  have none: "rejected ?r = None"
    using nf by (simp add: rejected_iff_work_run)
  have il: "i < length (tasks ?r)" using i by simp
  have s: "work_run env (before @ [i]) this solver cis dir net = settle env dir solver net ?r i"
    by (simp add: work_run_append)
  have "rejected (settle env dir solver net ?r i) = Some e"
    using il
  proof (cases rule: settle_cases [where env = env and dir = dir and solver = solver and net = net])
    case idle
    then have "task_phase (tasks ?r ! i) = Failed e" using f s by simp
    then have "list_ex task_failed (tasks ?r)"
      using il by (auto simp add: list_ex_length task_failed_iff)
    then show ?thesis using nf by simp
  next
    case (step k ci this' ph)
    then have "ph = Failed e" using f s il by simp
    then show ?thesis using step none by (simp add: set_phase_def)
  qed
  then have "rejected (foldl (settle env dir solver net) (settle env dir solver net ?r i) rest) = Some e"
    by (rule rejected_foldl_keeps)
  then show ?thesis
    by (simp add: work_run_def)
qed

lemma failure_has_first:
  assumes "list_ex task_failed (tasks (work_run env sched this solver cis dir net))"
  shows "\<exists>before i rest e. sched = before @ i # rest
           \<and> \<not> list_ex task_failed (tasks (work_run env before this solver cis dir net))
           \<and> i < length cis
           \<and> task_phase (tasks (work_run env (before @ [i]) this solver cis dir net) ! i) = Failed e"
  using assms
proof (induction sched rule: rev_induct)
  case Nil
  then show ?case by (simp add: work_run_def call_all_not_failed)
next
  case (snoc x xs)
  show ?case
  proof (cases "list_ex task_failed (tasks (work_run env xs this solver cis dir net))")
    case True
    from snoc.IH [OF True] obtain before i rest e where
      "xs = before @ i # rest"
      "\<not> list_ex task_failed (tasks (work_run env before this solver cis dir net))"
      "i < length cis"
      "task_phase (tasks (work_run env (before @ [i]) this solver cis dir net) ! i) = Failed e"
      by blast
    then have "xs @ [x] = before @ i # (rest @ [x])" by simp
    then show ?thesis
      using \<open>\<not> list_ex task_failed (tasks (work_run env before this solver cis dir net))\<close>
        \<open>i < length cis\<close>
        \<open>task_phase (tasks (work_run env (before @ [i]) this solver cis dir net) ! i) = Failed e\<close>
      by blast
  next
    case False
    let ?r = "work_run env xs this solver cis dir net"
    have s: "work_run env (xs @ [x]) this solver cis dir net = settle env dir solver net ?r x"
      by (simp add: work_run_append)
    have xl: "x < length (tasks ?r)"
    proof (rule ccontr)
      assume "\<not> x < length (tasks ?r)"
      then have "settle env dir solver net ?r x = ?r" by (simp add: settle_def)
      then show False using snoc.prems False s by simp
    qed
    from snoc.prems s obtain j where j: "j < length cis"
      and jf: "task_failed (tasks (settle env dir solver net ?r x) ! j)"
      by (auto simp add: list_ex_length)
    have "task_failed (tasks (settle env dir solver net ?r x) ! x)"
      using xl
    proof (cases rule: settle_cases [where env = env and dir = dir and solver = solver and net = net])
      case idle
      then show ?thesis using snoc.prems False s by simp
    next
      case (step k ci this' ph)
      show ?thesis
      proof (cases "j = x")
        case True
        then show ?thesis using jf by simp
      next
        case False
        then have "task_failed (tasks ?r ! j)"
          using jf step xl by (simp add: nth_list_update)
        then have "list_ex task_failed (tasks ?r)"
          using j by (auto simp add: list_ex_length)
        then show ?thesis using \<open>\<not> list_ex task_failed (tasks ?r)\<close> by simp
      qed
    qed
    then obtain e where "task_phase (tasks (work_run env (xs @ [x]) this solver cis dir net) ! x) = Failed e"
      using s by (auto simp add: task_failed_iff)
    then show ?thesis
      using False xl by (intro exI [of _ xs] exI [of _ x] exI [of _ "[]"] exI [of _ e]) simp
  qed
qed


lemma failed_stays_settle:
  "task_phase (tasks r ! i) = Failed e \<Longrightarrow>
   task_phase (tasks (settle env dir solver net r j) ! i) = Failed e"
  by (cases "j = i")
     (auto simp add: settle_def nth_list_update split: task.splits phase.splits sum.splits prod.splits)

lemma failed_stays_foldl:
  "task_phase (tasks r ! i) = Failed e \<Longrightarrow>
   task_phase (tasks (foldl (settle env dir solver net) r sched) ! i) = Failed e"
  by (induction sched arbitrary: r) (simp_all add: failed_stays_settle)

lemma protocols_call_effects:
  "\<not> list_ex is_MakeFile (fst (protocols_call env k this dir ci))"
  by (cases "(env, k, this, dir, ci)" rule: protocols_call.cases) (auto simp add: list_ex_iff)

lemma call_all_effects: "\<not> list_ex is_MakeFile (effects (call_all env this dir cis))"
  using protocols_call_effects by (fastforce simp add: call_all_def list_ex_iff)

lemma main_rejected:
  assumes "snd (makeBaseDirs env dir) = Inr u"
    and "rejected (work_run env sched this solver cis dir net) = Some e"
  shows "main env sched this dir cis solver net
           = (Rejects e, engine (work_run env sched this solver cis dir net),
              map MakeDir (base_dirs env dir) @ effects (call_all env this dir cis))"
proof -
  have "makeBaseDirs env dir = (map MakeDir (base_dirs env dir), Inr u)"
    using assms(1) by (simp add: makeBaseDirs_def)
  moreover have "work env sched this solver cis dir net
      = (Rejects e, engine (work_run env sched this solver cis dir net),
         effects (call_all env this dir cis))"
    using assms(2) by (simp add: work_def all_tasks_def Let_def work_run_def)
  ultimately show ?thesis
    by (simp add: main_def)
qed

text \<open>
  C2. When the base directories were made and a generator invocation of the batch has
  rejected, \<open>main\<close> rejects, with the rejection of an invocation of the batch: the one
  that rejected first. No \<open>makeFile\<close> call is among the calls of the run, so neither
  builder ran.
\<close>

theorem generator_rejection_rejects_main:
  assumes base: "snd (makeBaseDirs env dir) = Inr u"
    and failed: "list_ex task_failed (tasks (work_run env sched this solver cis dir net))"
  shows "(\<exists>e. fst (main env sched this dir cis solver net) = Rejects e
            \<and> list_ex (\<lambda>t. task_phase t = Failed e)
                (tasks (work_run env sched this solver cis dir net)))
         \<and> \<not> list_ex is_MakeFile (snd (snd (main env sched this dir cis solver net)))
         \<and> (\<forall>before i rest e.
               sched = before @ i # rest
               \<and> \<not> list_ex task_failed (tasks (work_run env before this solver cis dir net))
               \<and> i < length cis
               \<and> task_phase (tasks (work_run env (before @ [i]) this solver cis dir net) ! i)
                   = Failed e
               \<longrightarrow> fst (main env sched this dir cis solver net) = Rejects e)"
proof -
  have first: "fst (main env sched this dir cis solver net) = Rejects e
        \<and> list_ex (\<lambda>t. task_phase t = Failed e) (tasks (work_run env sched this solver cis dir net))"
    if d: "sched = before @ i # rest"
      and nf: "\<not> list_ex task_failed (tasks (work_run env before this solver cis dir net))"
      and i: "i < length cis"
      and f: "task_phase (tasks (work_run env (before @ [i]) this solver cis dir net) ! i) = Failed e"
    for before i rest e
  proof -
    have "rejected (work_run env sched this solver cis dir net) = Some e"
      unfolding d by (rule first_failure_rejected [OF nf i f])
    then have m: "fst (main env sched this dir cis solver net) = Rejects e"
      by (simp add: main_rejected [OF base])
    have "work_run env sched this solver cis dir net
            = foldl (settle env dir solver net)
                (work_run env (before @ [i]) this solver cis dir net) rest"
      by (simp add: d work_run_def)
    then have "task_phase (tasks (work_run env sched this solver cis dir net) ! i) = Failed e"
      using f by (simp add: failed_stays_foldl)
    then have "list_ex (\<lambda>t. task_phase t = Failed e)
                 (tasks (work_run env sched this solver cis dir net))"
      using i by (auto simp add: list_ex_length)
    with m show ?thesis by simp
  qed
  from failure_has_first [OF failed] first
  have a: "\<exists>e. fst (main env sched this dir cis solver net) = Rejects e
            \<and> list_ex (\<lambda>t. task_phase t = Failed e)
                (tasks (work_run env sched this solver cis dir net))"
    by blast
  from failed obtain e where "rejected (work_run env sched this solver cis dir net) = Some e"
    by (cases "rejected (work_run env sched this solver cis dir net)")
       (simp_all add: rejected_iff_work_run)
  then have "snd (snd (main env sched this dir cis solver net))
               = map MakeDir (base_dirs env dir) @ effects (call_all env this dir cis)"
    by (simp add: main_rejected [OF base])
  then have b: "\<not> list_ex is_MakeFile (snd (snd (main env sched this dir cis solver net)))"
    using call_all_effects [of env this dir cis] by (auto simp add: list_ex_iff)
  from a b first show ?thesis by blast
qed



theorem generator_rejection_rejects_main_witness:
  "fst (main failing_env [0, 1, 2, 0, 1] (new_ProtocolFileWriter failing_env) ''dir''
          [\<lparr>protocol = ''bancor''\<rparr>, \<lparr>protocol = ''DyDx''\<rparr>, \<lparr>protocol = ''made_up''\<rparr>]
          ''0.8.0'' All)
     = Rejects (Thrown ''boom'')
   \<and> \<not> list_ex is_MakeFile
         (snd (snd (main failing_env [0, 1, 2, 0, 1] (new_ProtocolFileWriter failing_env) ''dir''
            [\<lparr>protocol = ''bancor''\<rparr>, \<lparr>protocol = ''DyDx''\<rparr>, \<lparr>protocol = ''made_up''\<rparr>]
            ''0.8.0'' All)))"
proof -
  let ?cis = "[\<lparr>protocol = ''bancor''\<rparr>, \<lparr>protocol = ''DyDx''\<rparr>, \<lparr>protocol = ''made_up''\<rparr>]"
  let ?w = "new_ProtocolFileWriter failing_env"
  have base: "snd (makeBaseDirs failing_env ''dir'') = Inr [(), (), (), ()]"
    by code_simp
  have failed: "list_ex task_failed
      (tasks (work_run failing_env [0, 1, 2, 0, 1] ?w ''0.8.0'' ?cis ''dir'' All))"
    by code_simp
  have nf: "\<not> list_ex task_failed
      (tasks (work_run failing_env [0, 1, 2, 0] ?w ''0.8.0'' ?cis ''dir'' All))"
    by code_simp
  have f: "task_phase
      (tasks (work_run failing_env ([0, 1, 2, 0] @ [1]) ?w ''0.8.0'' ?cis ''dir'' All) ! 1)
        = Failed (Thrown ''boom'')"
    by code_simp
  have d: "[0, 1, 2, 0, 1] = [0, 1, 2, 0] @ 1 # ([]::nat list)"
    by simp
  have l: "1 < length ?cis"
    by simp
  note t = generator_rejection_rejects_main [OF base failed]
  have a: "fst (main failing_env [0, 1, 2, 0, 1] ?w ''dir'' ?cis ''0.8.0'' All)
             = Rejects (Thrown ''boom'')"
    by (rule t [THEN conjunct2, THEN conjunct2, rule_format, OF conjI [OF d conjI [OF nf conjI [OF l f]]]])
  have b: "\<not> list_ex is_MakeFile
             (snd (snd (main failing_env [0, 1, 2, 0, 1] ?w ''dir'' ?cis ''0.8.0'' All)))"
    by (rule t [THEN conjunct2, THEN conjunct1])
  from a b show ?thesis by (rule conjI)
qed

subsection \<open>What a step does to the engine\<close>

lemma grows_refl: "grows this this"
  by (simp add: grows_def)

lemma grows_trans: "grows a b \<Longrightarrow> grows b c \<Longrightarrow> grows a c"
  unfolding grows_def
  apply (intro conjI allI impI)
    apply blast
   apply (metis append.assoc)
  apply (metis append.assoc)
  done

lemma push_abis_Inr:
  assumes "push_abis k xs this = Inr this'"
  shows "madeDirs this' = madeDirs this" and "addresses this' = addresses this"
    and "\<exists>old. map_of (abis this) k = Some old
           \<and> map_of (abis this') = (map_of (abis this))(k \<mapsto> old @ xs)"
  using assms by (auto simp add: push_abis_def AList.update_conv' split: option.splits)

lemma push_abis_Inl: "push_abis k xs this = Inl e \<Longrightarrow> map_of (abis this) k = None"
  by (auto simp add: push_abis_def split: option.splits)

lemma push_addresses_keeps:
  "madeDirs (fst (push_addresses k as this)) = madeDirs this
   \<and> abis (fst (push_addresses k as this)) = abis this"
  by (induction as arbitrary: this) (auto split: option.splits)

lemma push_addresses_grows:
  "map_of (addresses this) q = Some nets \<Longrightarrow>
   \<exists>nets'. map_of (addresses (fst (push_addresses k as this))) q = Some nets'
      \<and> (\<forall>net. \<exists>more. nets' net = nets net @ more)
      \<and> (q \<noteq> k \<longrightarrow> nets' = nets)"
proof (induction as arbitrary: this nets)
  case Nil
  then show ?case by simp
next
  case (Cons a as)
  show ?case
  proof (cases "map_of (addresses this) k")
    case None
    then show ?thesis using Cons.prems by simp
  next
    case (Some old)
    let ?new = "old(NET a := old (NET a) @ [\<lparr>entry_ContractName = ContractName a, entry_Address = Address a\<rparr>])"
    let ?this1 = "this\<lparr>addresses := AList.update k ?new (addresses this)\<rparr>"
    have step: "push_addresses k (a # as) this = push_addresses k as ?this1"
      using Some by simp
    show ?thesis
    proof (cases "q = k")
      case True
      then have "map_of (addresses ?this1) q = Some ?new"
        by (simp add: AList.update_conv')
      from Cons.IH [OF this] obtain nets' where
        n: "map_of (addresses (fst (push_addresses k as ?this1))) q = Some nets'"
        and g: "\<forall>net. \<exists>more. nets' net = ?new net @ more"
        by blast
      have "\<exists>more. nets' net = nets net @ more" for net
      proof -
        from g obtain more where "nets' net = ?new net @ more" by blast
        moreover have "old = nets" using Some Cons.prems True by simp
        ultimately show ?thesis by (cases "net = NET a") auto
      qed
      then show ?thesis using n True step by simp
    next
      case False
      then have "map_of (addresses ?this1) q = Some nets"
        using Cons.prems by (simp add: AList.update_conv')
      from Cons.IH [OF this] show ?thesis using step by simp
    qed
  qed
qed

lemma accumulate_grows: "grows this (fst (accumulate k val this))"
proof (cases "push_abis k (ABIs val) this")
  case (Inl e)
  then show ?thesis by (simp add: accumulate_def grows_refl)
next
  case (Inr this1)
  let ?this2 = "fst (push_addresses k (Addresses val) this1)"
  have e: "fst (accumulate k val this) = ?this2"
    using Inr by (simp add: accumulate_def split: prod.splits option.splits)
  note a = push_abis_Inr [OF Inr]
  note b = push_addresses_keeps [of k "Addresses val" this1]
  have "made this p \<longrightarrow> made ?this2 p" for p
    using a(1) b by (simp add: made_def)
  moreover have "\<exists>more. map_of (abis ?this2) q = Some (frags @ more)"
    if "map_of (abis this) q = Some frags" for q frags
    using a(3) b that by (cases "q = k") auto
  moreover have "\<exists>nets'. map_of (addresses ?this2) q = Some nets'
                   \<and> (\<forall>net. \<exists>more. nets' net = nets net @ more)"
    if "map_of (addresses this) q = Some nets" for q nets
    using push_addresses_grows [of this1 q nets k "Addresses val"] that a(2) by auto
  ultimately show ?thesis
    unfolding e grows_def by blast
qed

lemma accumulate_other_bucket:
  "q \<noteq> k \<Longrightarrow>
   map_of (abis (fst (accumulate k val this))) q = map_of (abis this) q
   \<and> map_of (addresses (fst (accumulate k val this))) q = map_of (addresses this) q"
proof (cases "push_abis k (ABIs val) this")
  case (Inl e)
  then show ?thesis by (simp add: accumulate_def)
next
  case (Inr this1)
  assume qk: "q \<noteq> k"
  let ?this2 = "fst (push_addresses k (Addresses val) this1)"
  have e: "fst (accumulate k val this) = ?this2"
    using Inr by (simp add: accumulate_def split: prod.splits option.splits)
  note a = push_abis_Inr [OF Inr]
  note b = push_addresses_keeps [of k "Addresses val" this1]
  have "map_of (abis ?this2) q = map_of (abis this) q"
    using a(3) b qk by auto
  moreover have "map_of (addresses ?this2) q = map_of (addresses this) q"
  proof (cases "map_of (addresses this) q")
    case None
    have "map_of (addresses this0) q = None \<Longrightarrow>
            map_of (addresses (fst (push_addresses k as this0))) q = None" for as this0
      using qk by (induction as arbitrary: this0) (auto simp add: AList.update_conv' split: option.splits)
    then show ?thesis using None a(2) by simp
  next
    case (Some nets)
    then show ?thesis
      using push_addresses_grows [of this1 q nets k "Addresses val"] a(2) qk by auto
  qed
  ultimately show ?thesis by (simp add: e)
qed

lemma accumulate_nothing:
  "map_of (abis this) k \<noteq> None \<Longrightarrow>
   accumulate k \<lparr>ABIs = [], Addresses = [], Pack = pack\<rparr> this = (this, Done pack)"
  by (auto simp add: accumulate_def push_abis_def AList.update_triv)

lemma accumulate_nothing_engine:
  "fst (accumulate k \<lparr>ABIs = [], Addresses = [], Pack = pack\<rparr> this) = this"
  by (cases "map_of (abis this) k")
     (auto simp add: accumulate_def push_abis_def AList.update_triv)

lemma provisioned_engine:
  "fst (provisioned env k dir this) = this
   \<or> (\<exists>p. k = Protocol p
         \<and> fst (provisioned env k dir this) = this\<lparr>madeDirs := AList.update p True (madeDirs this)\<rparr>)"
  by (cases "(env, k, dir, this)" rule: provisioned.cases) (auto split: sum.splits)

lemma provisioned_grows: "grows this (fst (provisioned env k dir this))"
  using provisioned_engine [of env k dir this]
  by (auto simp add: grows_def made_def AList.update_conv')

lemma provisioned_buckets:
  "abis (fst (provisioned env k dir this)) = abis this
   \<and> addresses (fst (provisioned env k dir this)) = addresses this"
  using provisioned_engine [of env k dir this] by auto

lemma settle_engine:
  "engine (settle env dir solver net r i) = engine r
   \<or> (i < length (tasks r)
       \<and> engine (settle env dir solver net r i)
           = fst (provisioned env (task_key (tasks r ! i)) dir (engine r)))
   \<or> (i < length (tasks r)
       \<and> (\<exists>val. protocols_return env (task_key (tasks r ! i)) dir solver net
                   (task_import (tasks r ! i)) = Inr val
             \<and> engine (settle env dir solver net r i)
                 = fst (accumulate (task_key (tasks r ! i)) val (engine r))))"
  by (auto simp add: settle_def split: task.splits phase.splits sum.splits prod.splits)

lemma settle_grows: "grows (engine r) (engine (settle env dir solver net r i))"
  using settle_engine [of env dir solver net r i]
  by (auto simp add: grows_refl provisioned_grows accumulate_grows)

lemma foldl_settle_grows: "grows (engine r) (engine (foldl (settle env dir solver net) r sched))"
proof (induction sched arbitrary: r)
  case Nil
  show ?case by (simp add: grows_refl)
next
  case (Cons i sched)
  show ?case
    using grows_trans [OF settle_grows Cons.IH] by simp
qed

lemma protocols_return_ERROR:
  "protocols_return env ERROR dir solver net ci = Inr val
     \<longleftrightarrow> val = \<lparr>ABIs = [], Addresses = [], Pack = ''''\<rparr>"
  by auto

lemma settle_ERROR_bucket:
  "map_of (abis (engine (settle env dir solver net r i))) ERROR = map_of (abis (engine r)) ERROR
   \<and> map_of (addresses (engine (settle env dir solver net r i))) ERROR
       = map_of (addresses (engine r)) ERROR"
proof -
  consider (same) "engine (settle env dir solver net r i) = engine r"
    | (prov) "engine (settle env dir solver net r i)
           = fst (provisioned env (task_key (tasks r ! i)) dir (engine r))"
    | (acc) val where "protocols_return env (task_key (tasks r ! i)) dir solver net
                   (task_import (tasks r ! i)) = Inr val"
        "engine (settle env dir solver net r i)
                 = fst (accumulate (task_key (tasks r ! i)) val (engine r))"
    using settle_engine [of env dir solver net r i] by blast
  then show ?thesis
  proof cases
    case same
    then show ?thesis by simp
  next
    case prov
    then show ?thesis by (simp add: provisioned_buckets)
  next
    case acc
    show ?thesis
    proof (cases "task_key (tasks r ! i) = ERROR")
      case True
      then have "val = \<lparr>ABIs = [], Addresses = [], Pack = ''''\<rparr>"
        using acc(1) by (simp add: protocols_return_ERROR)
      then show ?thesis using acc(2) by (simp add: accumulate_nothing_engine)
    next
      case False
      then show ?thesis
        using acc(2) accumulate_other_bucket [of ERROR "task_key (tasks r ! i)" val "engine r"]
        by simp
    qed
  qed
qed

lemma foldl_settle_ERROR_bucket:
  "map_of (abis (engine (foldl (settle env dir solver net) r sched))) ERROR
     = map_of (abis (engine r)) ERROR
   \<and> map_of (addresses (engine (foldl (settle env dir solver net) r sched))) ERROR
       = map_of (addresses (engine r)) ERROR"
  by (induction sched arbitrary: r) (simp_all add: settle_ERROR_bucket)


subsection \<open>Routing\<close>

lemma protocols_key_name: "protocols_key (key_name k) = Some k"
proof (cases k)
  case (Protocol p)
  then show ?thesis by (cases p) (simp_all add: protocols_key_def)
next
  case ERROR
  then show ?thesis by (simp add: protocols_key_def)
qed

lemma protocols_key_Some: "protocols_key s = Some k \<Longrightarrow> s = key_name k"
  by (auto simp add: protocols_key_def split: if_splits)

text \<open>
  C4. An import whose protocol, upper-cased, is the name of a supported protocol is given
  that protocol's key, whatever the letter case of the input: the generator that \<open>#work\<close>
  calls and whose promise it folds is the one stored under that key, not \<open>ERROR\<close>, and no
  error is logged for the import.
\<close>

theorem supported_protocol_dispatch:
  assumes "toUpperCase env (protocol ci) = protocol_name p"
  shows "dispatch_key env ci = Protocol p
         \<and> dispatch_key env ci \<noteq> ERROR
         \<and> tasks (call_all env this dir [ci])
             = [Task (Protocol p) ci (snd (protocols_call env (Protocol p) this dir ci))]
         \<and> pack_of env dir solver net ci
             = map_sum (\<lambda>e. e) Pack (protocols_return env (Protocol p) dir solver net ci)
         \<and> \<not> list_ex is_LogError (effects (call_all env this dir [ci]))"
proof -
  have k: "dispatch_key env ci = Protocol p"
    using assms protocols_key_name [of "Protocol p"] by (simp add: dispatch_key_def)
  have "\<not> list_ex is_LogError (fst (protocols_call env (Protocol p) this dir ci))"
    by (cases p) (simp_all add: list_ex_iff)
  then show ?thesis
    using k by (simp add: call_all_def pack_of_def)
qed

theorem supported_protocol_dispatch_witness:
  "toUpperCase example_env (protocol \<lparr>protocol = ''bAnCoR''\<rparr>) = protocol_name BANCOR
   \<and> dispatch_key example_env \<lparr>protocol = ''bAnCoR''\<rparr> = Protocol BANCOR
   \<and> pack_of example_env ''dir'' ''0.8.0'' All \<lparr>protocol = ''bAnCoR''\<rparr> = Inr ''@bancor/contracts''
   \<and> toUpperCase example_env (protocol \<lparr>protocol = ''un'' @ [CHR 0xC4, CHR 0xB1] @ ''swap''\<rparr>)
       = protocol_name UNISWAP
   \<and> dispatch_key example_env \<lparr>protocol = ''un'' @ [CHR 0xC4, CHR 0xB1] @ ''swap''\<rparr>
       = Protocol UNISWAP
   \<and> \<not> list_ex is_LogError
         (effects (call_all example_env (new_ProtocolFileWriter example_env) ''dir''
            [\<lparr>protocol = ''un'' @ [CHR 0xC4, CHR 0xB1] @ ''swap''\<rparr>]))"
proof -
  have u: "toUpperCase example_env (protocol \<lparr>protocol = ''bAnCoR''\<rparr>) = protocol_name BANCOR"
    by (simp add: example_env_def upper_char_def)
  note t = supported_protocol_dispatch [OF u, where this = "new_ProtocolFileWriter example_env"
      and dir = "''dir''" and solver = "''0.8.0''" and net = All]
  have k: "dispatch_key example_env \<lparr>protocol = ''bAnCoR''\<rparr> = Protocol BANCOR"
    by (rule t [THEN conjunct1])
  have "pack_of example_env ''dir'' ''0.8.0'' All \<lparr>protocol = ''bAnCoR''\<rparr>
          = map_sum (\<lambda>e. e) Pack
              (protocols_return example_env (Protocol BANCOR) ''dir'' ''0.8.0'' All \<lparr>protocol = ''bAnCoR''\<rparr>)"
    by (rule t [THEN conjunct2, THEN conjunct2, THEN conjunct2, THEN conjunct1])
  then have pk: "pack_of example_env ''dir'' ''0.8.0'' All \<lparr>protocol = ''bAnCoR''\<rparr> = Inr ''@bancor/contracts''"
    by (simp add: example_env_def)
  have u': "toUpperCase example_env (protocol \<lparr>protocol = ''un'' @ [CHR 0xC4, CHR 0xB1] @ ''swap''\<rparr>)
       = protocol_name UNISWAP"
    by (simp add: example_env_def upper_char_def)
  note t' = supported_protocol_dispatch [OF u', where this = "new_ProtocolFileWriter example_env"
      and dir = "''dir''" and solver = "''0.8.0''" and net = All]
  have k': "dispatch_key example_env \<lparr>protocol = ''un'' @ [CHR 0xC4, CHR 0xB1] @ ''swap''\<rparr>
       = Protocol UNISWAP"
    by (rule t' [THEN conjunct1])
  have l': "\<not> list_ex is_LogError
         (effects (call_all example_env (new_ProtocolFileWriter example_env) ''dir''
            [\<lparr>protocol = ''un'' @ [CHR 0xC4, CHR 0xB1] @ ''swap''\<rparr>]))"
    by (rule t' [THEN conjunct2, THEN conjunct2, THEN conjunct2, THEN conjunct2])
  from u k pk u' k' l' show ?thesis by (intro conjI)
qed

subsection \<open>Unsupported protocols\<close>

lemma unsupported_dispatch:
  assumes "\<forall>p. toUpperCase env (protocol ci) \<noteq> protocol_name p"
  shows "dispatch_key env ci = ERROR"
proof (cases "protocols_key (toUpperCase env (protocol ci))")
  case None
  then show ?thesis by (simp add: dispatch_key_def)
next
  case (Some k)
  from protocols_key_Some [OF Some] assms have "k = ERROR"
    by (cases k) auto
  then show ?thesis using Some by (simp add: dispatch_key_def)
qed

lemma ERROR_task_settle:
  assumes "map_of (abis (engine r)) ERROR \<noteq> None" and "i < length (tasks r)"
    and "tasks r ! i = Task ERROR ci Generating \<or> tasks r ! i = Task ERROR ci (Done '''')"
  shows "tasks (settle env dir solver net r j) ! i = Task ERROR ci Generating
         \<or> tasks (settle env dir solver net r j) ! i = Task ERROR ci (Done '''')"
proof (cases "j = i")
  case False
  have "tasks (settle env dir solver net r j) ! i = tasks r ! i"
    using False
    by (auto simp add: settle_def split: task.splits phase.splits sum.splits prod.splits)
  then show ?thesis using assms(3) by simp
next
  case True
  from assms(3) show ?thesis
  proof
    assume g: "tasks r ! i = Task ERROR ci Generating"
    have "settle env dir solver net r i = set_phase i ERROR ci (Done '''') (r\<lparr>engine := engine r\<rparr>)"
      using g assms(1,2) by (simp add: settle_def accumulate_nothing)
    then show ?thesis using True assms(2) by simp
  next
    assume "tasks r ! i = Task ERROR ci (Done '''')"
    then show ?thesis using True assms(2) by (simp add: settle_def)
  qed
qed

lemma ERROR_task_foldl:
  assumes "map_of (abis (engine r)) ERROR \<noteq> None" and "i < length (tasks r)"
    and "tasks r ! i = Task ERROR ci Generating \<or> tasks r ! i = Task ERROR ci (Done '''')"
  shows "tasks (foldl (settle env dir solver net) r sched) ! i = Task ERROR ci Generating
         \<or> tasks (foldl (settle env dir solver net) r sched) ! i = Task ERROR ci (Done '''')"
  using assms
proof (induction sched arbitrary: r)
  case Nil
  then show ?case by simp
next
  case (Cons j sched)
  have "map_of (abis (engine (settle env dir solver net r j))) ERROR \<noteq> None"
    using Cons.prems(1) by (simp add: settle_ERROR_bucket)
  moreover have "i < length (tasks (settle env dir solver net r j))"
    using Cons.prems(2) by simp
  moreover note ERROR_task_settle [OF Cons.prems, of env dir solver net j]
  ultimately show ?case
    using Cons.IH [of "settle env dir solver net r j"] by simp
qed


lemma settle_finished:
  assumes "list_all (\<lambda>t. task_phase t \<noteq> Provisioning \<and> task_phase t \<noteq> Generating) (tasks r)"
  shows "settle env dir solver net r i = r"
proof (cases "i < length (tasks r)")
  case False
  then show ?thesis by (simp add: settle_def)
next
  case True
  then have "task_phase (tasks r ! i) \<noteq> Provisioning \<and> task_phase (tasks r ! i) \<noteq> Generating"
    using assms by (simp add: list_all_length)
  then show ?thesis
    using True by (cases "tasks r ! i") (auto simp add: settle_def split: phase.splits)
qed

lemma foldl_settle_finished:
  "list_all (\<lambda>t. task_phase t \<noteq> Provisioning \<and> task_phase t \<noteq> Generating) (tasks r) \<Longrightarrow>
   foldl (settle env dir solver net) r sched = r"
  by (induction sched) (simp_all add: settle_finished)

text \<open>
  C3. An import whose protocol, upper-cased, is the name of no supported protocol is
  given the key \<open>ERROR\<close>. The generator under that key resolves with no ABI, no address and
  the empty pack, so in an engine that has its \<open>ERROR\<close> bucket (every engine has, from its
  constructor on) the import's task never fails, whatever the batch and the schedule;
  and a batch of that import alone resolves, logs one error and leaves the engine as it
  was.
\<close>

theorem unsupported_protocol_resolves_empty:
  assumes u: "\<forall>p. toUpperCase env (protocol ci) \<noteq> protocol_name p"
    and b: "map_of (abis this) ERROR \<noteq> None"
    and i: "i < length cis" "cis ! i = ci"
  shows "dispatch_key env ci = ERROR
         \<and> protocols_return env (dispatch_key env ci) dir solver net ci
             = Inr \<lparr>ABIs = [], Addresses = [], Pack = ''''\<rparr>
         \<and> \<not> task_failed (tasks (work_run env sched this solver cis dir net) ! i)
         \<and> work env (0 # sched') this solver [ci] dir net
             = (Resolved [''''], this, [LogError (protocol ci)])"
proof -
  have k: "dispatch_key env ci = ERROR"
    by (rule unsupported_dispatch [OF u])
  have t0: "tasks (call_all env this dir cis) ! i = Task ERROR ci Generating"
    using i k by (simp add: call_all_def)
  have "tasks (work_run env sched this solver cis dir net) ! i = Task ERROR ci Generating
        \<or> tasks (work_run env sched this solver cis dir net) ! i = Task ERROR ci (Done '''')"
    unfolding work_run_def
    by (rule ERROR_task_foldl) (use b i t0 in \<open>simp_all add: call_all_def\<close>)
  then have nf: "\<not> task_failed (tasks (work_run env sched this solver cis dir net) ! i)"
    by auto
  let ?r0 = "call_all env this dir [ci]"
  let ?r1 = "\<lparr>engine = this, effects = [LogError (protocol ci)],
              tasks = [Task ERROR ci (Done '''')], rejected = None\<rparr>"
  have r0: "?r0 = \<lparr>engine = this, effects = [LogError (protocol ci)],
              tasks = [Task ERROR ci Generating], rejected = None\<rparr>"
    using k by (simp add: call_all_def)
  have "settle env dir solver net ?r0 0 = ?r1"
    using b by (simp add: r0 settle_def accumulate_nothing set_phase_def)
  moreover have "foldl (settle env dir solver net) ?r1 sched' = ?r1"
    by (rule foldl_settle_finished) simp
  ultimately have "work_run env (0 # sched') this solver [ci] dir net = ?r1"
    by (simp add: work_run_def)
  then have w: "work env (0 # sched') this solver [ci] dir net
                  = (Resolved [''''], this, [LogError (protocol ci)])"
    by (simp add: work_def all_tasks_def)
  from k nf w show ?thesis by simp
qed

theorem unsupported_protocol_resolves_empty_witness:
  "dispatch_key failing_env \<lparr>protocol = ''made_up''\<rparr> = ERROR
   \<and> \<not> task_failed
        (tasks (work_run failing_env [0, 1, 1, 0] (new_ProtocolFileWriter failing_env) ''0.8.0''
           [\<lparr>protocol = ''DyDx''\<rparr>, \<lparr>protocol = ''made_up''\<rparr>] ''dir'' All) ! 1)
   \<and> work failing_env [0] (new_ProtocolFileWriter failing_env) ''0.8.0''
        [\<lparr>protocol = ''made_up''\<rparr>] ''dir'' All
       = (Resolved [''''], new_ProtocolFileWriter failing_env, [LogError ''made_up''])"
proof -
  have u: "\<forall>p. toUpperCase failing_env (protocol \<lparr>protocol = ''made_up''\<rparr>) \<noteq> protocol_name p"
  proof
    fix p
    show "toUpperCase failing_env (protocol \<lparr>protocol = ''made_up''\<rparr>) \<noteq> protocol_name p"
      by (cases p) (simp_all add: failing_env_def example_env_def upper_char_def)
  qed
  have b: "map_of (abis (new_ProtocolFileWriter failing_env)) ERROR \<noteq> None"
    by (simp add: new_ProtocolFileWriter_def AList.update_conv')
  have i: "1 < length [\<lparr>protocol = ''DyDx''\<rparr>, \<lparr>protocol = ''made_up''\<rparr>]"
    "[\<lparr>protocol = ''DyDx''\<rparr>, \<lparr>protocol = ''made_up''\<rparr>] ! 1 = \<lparr>protocol = ''made_up''\<rparr>"
    by simp_all
  note t = unsupported_protocol_resolves_empty [OF u b i, where
      dir = "''dir''" and solver = "''0.8.0''" and net = All and sched = "[0, 1, 1, 0]"
      and sched' = "[]"]
  have "work failing_env [0] (new_ProtocolFileWriter failing_env) ''0.8.0''
        [\<lparr>protocol = ''made_up''\<rparr>] ''dir'' All
       = (Resolved [''''], new_ProtocolFileWriter failing_env,
          [LogError (protocol \<lparr>protocol = ''made_up''\<rparr>)])"
    by (rule t [THEN conjunct2, THEN conjunct2, THEN conjunct2])
  then have w: "work failing_env [0] (new_ProtocolFileWriter failing_env) ''0.8.0''
        [\<lparr>protocol = ''made_up''\<rparr>] ''dir'' All
       = (Resolved [''''], new_ProtocolFileWriter failing_env, [LogError ''made_up''])"
    by simp
  from t [THEN conjunct1] t [THEN conjunct2, THEN conjunct2, THEN conjunct1] w
  show ?thesis by (intro conjI)
qed

subsection \<open>The \<open>ERROR\<close> bucket\<close>

lemma main_engine:
  "fst (snd (main env sched this dir cis solver net)) = this
   \<or> fst (snd (main env sched this dir cis solver net))
       = engine (work_run env sched this solver cis dir net)"
  by (auto simp add: main_def work_def Let_def split: prod.splits sum.splits promise.splits)

text \<open>
  C6. The \<open>ERROR\<close> bucket of a new engine has no ABI fragment and no address record in
  any network, and a run of \<open>#work\<close> or of \<open>main\<close> that starts with the bucket empty
  leaves it empty, for every batch and every schedule: so it is empty in every state a
  run reaches.
\<close>

theorem ERROR_bucket_stays_empty:
  "ERROR_bucket_empty (new_ProtocolFileWriter env)
   \<and> (ERROR_bucket_empty this \<longrightarrow>
        ERROR_bucket_empty (engine (work_run env sched this solver cis dir net))
        \<and> ERROR_bucket_empty (fst (snd (main env sched this dir cis solver net))))"
proof (intro conjI impI)
  show "ERROR_bucket_empty (new_ProtocolFileWriter env)"
    by (simp add: ERROR_bucket_empty_def new_ProtocolFileWriter_def AList.update_conv')
  assume e: "ERROR_bucket_empty this"
  have "engine (call_all env this dir cis) = this"
    by (simp add: call_all_def)
  then show w: "ERROR_bucket_empty (engine (work_run env sched this solver cis dir net))"
    using e foldl_settle_ERROR_bucket [of env dir solver net "call_all env this dir cis" sched]
    by (simp add: ERROR_bucket_empty_def work_run_def)
  show "ERROR_bucket_empty (fst (snd (main env sched this dir cis solver net)))"
    using main_engine [of env sched this dir cis solver net] e w by auto
qed

theorem ERROR_bucket_stays_empty_witness:
  "ERROR_bucket_empty (new_ProtocolFileWriter example_env)
   \<and> ERROR_bucket_empty
       (engine (work_run example_env [0, 1, 2, 3, 0, 1] (new_ProtocolFileWriter example_env) ''0.8.0''
          [\<lparr>protocol = ''bancor''\<rparr>, \<lparr>protocol = ''DyDx''\<rparr>, \<lparr>protocol = ''made_up''\<rparr>,
           \<lparr>protocol = ''error''\<rparr>] ''dir'' All))"
proof -
  note t = ERROR_bucket_stays_empty [where env = example_env
      and this = "new_ProtocolFileWriter example_env" and sched = "[0, 1, 2, 3, 0, 1]"
      and solver = "''0.8.0''" and dir = "''dir''" and net = All
      and cis = "[\<lparr>protocol = ''bancor''\<rparr>, \<lparr>protocol = ''DyDx''\<rparr>, \<lparr>protocol = ''made_up''\<rparr>,
        \<lparr>protocol = ''error''\<rparr>]"]
  have a: "ERROR_bucket_empty (new_ProtocolFileWriter example_env)"
    by (rule t [THEN conjunct1])
  from t [THEN conjunct2, rule_format, OF a, THEN conjunct1] a show ?thesis
    by (intro conjI)
qed

subsection \<open>Directory provisioning\<close>











subsection \<open>Reuse of the engine\<close>

text \<open>
  C9, as stated: between two runs on the same engine the accumulators and the flags are
  reset, so that the second run starts empty. It fails: the class has one instance, its
  fields are initialised once, and \<open>main\<close> resets nothing. After a run with a Bancor
  import the Bancor flag is set and the Bancor bucket holds the fragment; a second run of
  the same import starts there, and ends with the fragment twice.
\<close>

theorem second_run_starts_where_first_ended:
  "made (fst (snd (main example_env [0, 0] (new_ProtocolFileWriter example_env) ''dir''
                     [\<lparr>protocol = ''bancor''\<rparr>] ''0.8.0'' All))) BANCOR
   \<and> map_of (abis (fst (snd (main example_env [0, 0] (new_ProtocolFileWriter example_env) ''dir''
                     [\<lparr>protocol = ''bancor''\<rparr>] ''0.8.0'' All)))) (Protocol BANCOR)
       = Some [\<lparr>ABI = ''IBancorNetwork''\<rparr>]
   \<and> map_of (abis (fst (snd (main example_env [0, 0]
         (fst (snd (main example_env [0, 0] (new_ProtocolFileWriter example_env) ''dir''
                     [\<lparr>protocol = ''bancor''\<rparr>] ''0.8.0'' All)))
         ''dir'' [\<lparr>protocol = ''bancor''\<rparr>] ''0.8.0'' All)))) (Protocol BANCOR)
       = Some [\<lparr>ABI = ''IBancorNetwork''\<rparr>, \<lparr>ABI = ''IBancorNetwork''\<rparr>]"
  by code_simp

lemma main_grows: "grows this (fst (snd (main env sched this dir cis solver net)))"
proof -
  have "grows this (engine (work_run env sched this solver cis dir net))"
    using foldl_settle_grows [of "call_all env this dir cis" env dir solver net sched]
    by (simp add: work_run_def call_all_def)
  then show ?thesis
    using main_engine [of env sched this dir cis solver net] by (auto simp add: grows_refl)
qed

text \<open>
  C9, amended: the accumulators and the flags live as long as the engine, and a run only
  adds to them. After \<open>main\<close>, for every batch and schedule, each flag that was set is
  set, and each bucket holds what it held, followed by what the run appended: a second
  run on the same engine starts from the state the first one left.
\<close>

theorem main_only_adds:
  "(made this p \<longrightarrow> made (fst (snd (main env sched this dir cis solver net))) p)
   \<and> (map_of (abis this) k = Some frags \<longrightarrow>
        (\<exists>more. map_of (abis (fst (snd (main env sched this dir cis solver net)))) k
                  = Some (frags @ more)))
   \<and> (map_of (addresses this) k = Some nets \<longrightarrow>
        (\<exists>nets'. map_of (addresses (fst (snd (main env sched this dir cis solver net)))) k
                   = Some nets'
                 \<and> (\<forall>net. \<exists>more. nets' net = nets net @ more)))"
  using main_grows [of this env sched dir cis solver net]
  unfolding grows_def by blast

theorem main_only_adds_witness:
  "made example_engine BANCOR
   \<and> map_of (abis example_engine) (Protocol BANCOR) = Some [\<lparr>ABI = ''IBancorNetwork''\<rparr>]
   \<and> made (fst (snd (main example_env [0, 0] example_engine ''dir''
                      [\<lparr>protocol = ''bancor''\<rparr>] ''0.8.0'' All))) BANCOR
   \<and> (\<exists>more. map_of (abis (fst (snd (main example_env [0, 0] example_engine ''dir''
                      [\<lparr>protocol = ''bancor''\<rparr>] ''0.8.0'' All)))) (Protocol BANCOR)
        = Some ([\<lparr>ABI = ''IBancorNetwork''\<rparr>] @ more))"
proof -
  let ?e = "fst (snd (main example_env [0, 0] example_engine ''dir''
                      [\<lparr>protocol = ''bancor''\<rparr>] ''0.8.0'' All))"
  have m: "made example_engine BANCOR"
    by (simp add: made_def example_engine_def)
  have a: "map_of (abis example_engine) (Protocol BANCOR) = Some [\<lparr>ABI = ''IBancorNetwork''\<rparr>]"
    by (simp add: example_engine_def)
  note t = main_only_adds [where this = example_engine and env = example_env and sched = "[0, 0]"
      and dir = "''dir''" and cis = "[\<lparr>protocol = ''bancor''\<rparr>]" and solver = "''0.8.0''"
      and net = All and p = BANCOR and k = "Protocol BANCOR"
      and frags = "[\<lparr>ABI = ''IBancorNetwork''\<rparr>]"]
  have m': "made ?e BANCOR"
    by (rule t [THEN conjunct1, THEN mp, OF m])
  have a': "\<exists>more. map_of (abis ?e) (Protocol BANCOR)
        = Some ([\<lparr>ABI = ''IBancorNetwork''\<rparr>] @ more)"
    by (rule t [THEN conjunct2, THEN conjunct1, THEN mp, OF a])
  from m a m' a' show ?thesis by (intro conjI)
qed

end
